theory Spec2Isabelle
  imports Main
begin

section \<open>txRedis: the RESP decoder, encoder and request queue of \<open>RedisBase\<close>\<close>

text \<open>
  A shallow embedding of \<^verbatim>\<open>src/txredis/protocol.py\<close> (class \<^verbatim>\<open>RedisBase\<close>), following the
  Python 3 branch of \<^verbatim>\<open>_compat.py\<close>.

  \<^item> Bytes are lists of 8-bit characters. Decoded text is modelled over the same characters
    (code points 0 to 255), so the \<^verbatim>\<open>ascii\<close> and \<^verbatim>\<open>latin-1\<close> charsets are exact and every
    other charset is a parameter.
  \<^item> The fields \<^verbatim>\<open>charset\<close> and \<^verbatim>\<open>errors\<close> are set in \<^verbatim>\<open>__init__\<close> and never change; together
    they select a codec, which every function takes as its first argument.
  \<^item> A \<^verbatim>\<open>Deferred\<close> is an identifier. Firing one appends to the log \<open>fired\<close>; creating one
    takes the next identifier from \<open>next_deferred\<close>. User callbacks are not modelled.
  \<^item> \<^verbatim>\<open>transport.write\<close> appends to the list \<open>transport\<close>.
  \<^item> The inactivity timer (\<^verbatim>\<open>resetTimeout\<close>) is real time and is left out.
  \<^item> The top of \<^verbatim>\<open>_multi_bulk_stack\<close> (the right end of the deque) is the head of the list.
\<close>

subsection \<open>Constants\<close>

type_synonym bytes = string

definition SYM_STAR :: bytes where "SYM_STAR = ''*''"
definition SYM_DOLLAR :: bytes where "SYM_DOLLAR = ''$''"
definition SYM_CRLF :: bytes where "SYM_CRLF = [CHR 0x0D, CHR 0x0A]"
definition SYM_EMPTY :: bytes where "SYM_EMPTY = []"

definition ERROR :: bytes where "ERROR = ''-''"
definition SINGLE_LINE :: bytes where "SINGLE_LINE = ''+''"
definition INTEGER :: bytes where "INTEGER = '':''"
definition BULK :: bytes where "BULK = ''$''"
definition MULTI_BULK :: bytes where "MULTI_BULK = ''*''"

subsection \<open>Python library functions the protocol uses\<close>

record codec =
  decode :: "bytes \<Rightarrow> string option"
  encode :: "string \<Rightarrow> bytes option"

text \<open>\<open>None\<close> stands for \<^verbatim>\<open>UnicodeDecodeError\<close> and \<^verbatim>\<open>UnicodeEncodeError\<close>.\<close>

definition is_ascii :: "string \<Rightarrow> bool" where
  "is_ascii s = list_all (\<lambda>c. (of_char c :: nat) < 128) s"

definition ascii_strict :: codec where
  "ascii_strict =
     \<lparr>decode = (\<lambda>b. if is_ascii b then Some b else None),
      encode = (\<lambda>s. if is_ascii s then Some s else None)\<rparr>"

definition latin1 :: codec where
  "latin1 = \<lparr>decode = Some, encode = Some\<rparr>"

text \<open>Slices \<^verbatim>\<open>xs[:n]\<close> and \<^verbatim>\<open>xs[n:]\<close>; a negative index counts from the end.\<close>

definition py_index :: "int \<Rightarrow> 'a list \<Rightarrow> nat" where
  "py_index n xs = (if n < 0 then nat (int (length xs) + n) else nat n)"

definition py_take :: "int \<Rightarrow> 'a list \<Rightarrow> 'a list" where
  "py_take n xs = take (py_index n xs) xs"

definition py_drop :: "int \<Rightarrow> 'a list \<Rightarrow> 'a list" where
  "py_drop n xs = drop (py_index n xs) xs"

text \<open>\<^verbatim>\<open>buffer.split(SYM_CRLF, 1)\<close>; \<open>None\<close> when \<^verbatim>\<open>SYM_CRLF not in buffer\<close>.\<close>

fun split_crlf :: "bytes \<Rightarrow> (bytes \<times> bytes) option" where
  "split_crlf (a # b # rest) =
     (if a = CHR 0x0D \<and> b = CHR 0x0A then Some ([], rest)
      else (case split_crlf (b # rest) of
              None \<Rightarrow> None
            | Some (line, rest') \<Rightarrow> Some (a # line, rest')))"
| "split_crlf _ = None"

text \<open>
  \<^verbatim>\<open>int(text)\<close> of Python 3 in base 10: surrounding whitespace is stripped, one sign is
  allowed, and single underscores may separate digits. \<open>None\<close> stands for \<^verbatim>\<open>ValueError\<close>.
  The whitespace \<^verbatim>\<open>int\<close> strips is tab, line feed, vertical tab, form feed, carriage return and
  space, and of the code points above 127 the two spaces U+0085 and U+00A0; the separators
  U+001C to U+001F are not stripped. The interpreter's limit on the number of digits is left out.
\<close>

definition py_space :: "char \<Rightarrow> bool" where
  "py_space c = ((of_char c :: nat) \<in> {9, 10, 11, 12, 13, 32, 133, 160})"

definition py_strip :: "string \<Rightarrow> string" where
  "py_strip s = rev (dropWhile py_space (rev (dropWhile py_space s)))"

definition is_digit :: "char \<Rightarrow> bool" where
  "is_digit c = (48 \<le> (of_char c :: nat) \<and> (of_char c :: nat) \<le> 57)"

definition digit_val :: "char \<Rightarrow> nat" where
  "digit_val c = of_char c - 48"

fun digits_acc :: "nat \<Rightarrow> string \<Rightarrow> nat option" where
  "digits_acc a [] = Some a"
| "digits_acc a (c # cs) =
     (if is_digit c then digits_acc (10 * a + digit_val c) cs
      else if c = CHR ''_'' then
        (case cs of [] \<Rightarrow> None
         | d # _ \<Rightarrow> if is_digit d then digits_acc a cs else None)
      else None)"

definition py_digits :: "string \<Rightarrow> nat option" where
  "py_digits s =
     (case s of [] \<Rightarrow> None
      | c # _ \<Rightarrow> if is_digit c then digits_acc 0 s else None)"

definition py_int :: "string \<Rightarrow> int option" where
  "py_int s =
     (case py_strip s of
        [] \<Rightarrow> None
      | c # r \<Rightarrow>
          if c = CHR ''-'' then map_option (\<lambda>n. - int n) (py_digits r)
          else if c = CHR ''+'' then map_option int (py_digits r)
          else map_option int (py_digits (c # r)))"

text \<open>\<^verbatim>\<open>str(n)\<close> for an integer.\<close>

definition digit_char :: "nat \<Rightarrow> char" where
  "digit_char d = ''0123456789'' ! d"

function str_nat :: "nat \<Rightarrow> string" where
  "str_nat n = (if n < 10 then [digit_char n] else str_nat (n div 10) @ [digit_char (n mod 10)])"
  by pat_completeness auto
termination
  by (relation "measure id") auto

declare str_nat.simps [simp del]

definition str_int :: "int \<Rightarrow> string" where
  "str_int i = (if i < 0 then CHR ''-'' # str_nat (nat (- i)) else str_nat (nat i))"

subsection \<open>Replies, exceptions and the protocol state\<close>

text \<open>
  The exceptions of \<^verbatim>\<open>txredis.exceptions\<close> and of the runtime that the code raises or hands to
  an errback. \<open>TransportLost r\<close> is the reason the transport passes to \<^verbatim>\<open>connectionLost\<close>.
\<close>

datatype exn =
    ResponseError string
  | NoScript string
  | NotBusy string
  | TimeoutError string
  | RuntimeError string
  | TransportLost string
  | UnicodeDecodeError
  | UnicodeEncodeError
  | IndexError
  | AttributeError

text \<open>
  What a request can be called back with: \<^verbatim>\<open>None\<close>, text, an integer, an
  \<^verbatim>\<open>InvalidResponse\<close> instance (with its message) or a list of such values.
\<close>

datatype reply =
    RNone
  | RText string
  | RInt int
  | RInvalid string
  | RList "reply list"

datatype outcome = Callback reply | Errback exn

type_synonym deferred = nat

type_synonym frame = "int \<times> reply list option"

record state =
  buffer :: bytes
  bulk_length :: "int option"
  disconnected :: bool
  multi_bulk_stack :: "frame list"
  request_queue :: "deferred list"
  fired :: "(deferred \<times> outcome) list"
  next_deferred :: nat
  transport :: "bytes list"

text \<open>\<^verbatim>\<open>__init__\<close>.\<close>

definition init :: state where
  "init = \<lparr>buffer = [], bulk_length = None, disconnected = False, multi_bulk_stack = [],
           request_queue = [], fired = [], next_deferred = 0, transport = []\<rparr>"

text \<open>A call either returns with the new state or raises from the state it had reached.\<close>

datatype result = Ok state | Raise exn state

definition frame_value :: "reply list option \<Rightarrow> reply" where
  "frame_value xs = (case xs of None \<Rightarrow> RNone | Some rs \<Rightarrow> RList rs)"

subsection \<open>Completion of replies\<close>

text \<open>
  \<^verbatim>\<open>handleMultiBulkElement\<close>, \<^verbatim>\<open>multiBulkDataReceived\<close>, \<^verbatim>\<open>handleCompleteMultiBulkData\<close>
  and \<^verbatim>\<open>responseReceived\<close> call one another. Indexing or popping the empty stack raises
  \<^verbatim>\<open>IndexError\<close>; appending to the \<^verbatim>\<open>None\<close> of a null-array frame raises \<^verbatim>\<open>AttributeError\<close>.
\<close>

function handleMultiBulkElement :: "state \<Rightarrow> reply \<Rightarrow> result"
  and multiBulkDataReceived :: "state \<Rightarrow> result"
  and handleCompleteMultiBulkData :: "state \<Rightarrow> reply \<Rightarrow> result"
  and responseReceived :: "state \<Rightarrow> reply \<Rightarrow> result"
where
  "handleMultiBulkElement st element =
     (case multi_bulk_stack st of
        [] \<Rightarrow> Raise IndexError st
      | (n, None) # fs \<Rightarrow> Raise AttributeError st
      | (n, Some rs) # fs \<Rightarrow>
          (if n - 1 = 0
           then multiBulkDataReceived (st\<lparr>multi_bulk_stack := (n - 1, Some (rs @ [element])) # fs\<rparr>)
           else Ok (st\<lparr>multi_bulk_stack := (n - 1, Some (rs @ [element])) # fs\<rparr>)))"
| "multiBulkDataReceived st =
     (case multi_bulk_stack st of
        [] \<Rightarrow> Raise IndexError st
      | (n, xs) # fs \<Rightarrow>
          (if fs \<noteq> []
           then handleMultiBulkElement (st\<lparr>multi_bulk_stack := fs\<rparr>) (frame_value xs)
           else handleCompleteMultiBulkData (st\<lparr>multi_bulk_stack := fs\<rparr>) (frame_value xs)))"
| "handleCompleteMultiBulkData st reply = responseReceived st reply"
| "responseReceived st reply =
     (if multi_bulk_stack st \<noteq> [] then handleMultiBulkElement st reply
      else (case request_queue st of
              [] \<Rightarrow> Ok st
            | d # q \<Rightarrow> Ok (st\<lparr>request_queue := q, fired := fired st @ [(d, Callback reply)]\<rparr>)))"
  by pat_completeness auto
termination
  by (relation "measure (\<lambda>x. case x of
          Inl (Inl (st, _)) \<Rightarrow> 4 * length (multi_bulk_stack st) + 1
        | Inl (Inr st) \<Rightarrow> 4 * length (multi_bulk_stack st)
        | Inr (Inl (st, _)) \<Rightarrow> 4 * length (multi_bulk_stack st) + 3
        | Inr (Inr (st, _)) \<Rightarrow> 4 * length (multi_bulk_stack st) + 2)") auto

declare handleMultiBulkElement.simps [simp del] multiBulkDataReceived.simps [simp del]
  handleCompleteMultiBulkData.simps [simp del] responseReceived.simps [simp del]

subsection \<open>Line handlers\<close>

definition error_reply :: "string \<Rightarrow> exn" where
  "error_reply data =
     (if take 4 data = ''ERR '' then ResponseError (drop 4 data)
      else if take 9 data = ''NOSCRIPT '' then NoScript (drop 9 data)
      else if take 8 data = ''NOTBUSY '' then NotBusy (drop 8 data)
      else ResponseError data)"

definition errorReceived :: "state \<Rightarrow> string \<Rightarrow> result" where
  "errorReceived st data =
     (case request_queue st of
        d # q \<Rightarrow> Ok (st\<lparr>request_queue := q, fired := fired st @ [(d, Errback (error_reply data))]\<rparr>)
      | [] \<Rightarrow> Raise (error_reply data) st)"

definition single_line_value :: "string \<Rightarrow> reply" where
  "single_line_value data = (if data = ''none'' then RNone else RText data)"

definition singleLineReceived :: "state \<Rightarrow> string \<Rightarrow> result" where
  "singleLineReceived st data = responseReceived st (single_line_value data)"

text \<open>The message of \<^verbatim>\<open>InvalidResponse("Cannot convert data '%s' to integer" % data)\<close>.\<close>

definition invalid_message :: "string \<Rightarrow> string" where
  "invalid_message data = ''Cannot convert data '' @ [CHR 0x27] @ data @ [CHR 0x27] @ '' to integer''"

definition integer_value :: "string \<Rightarrow> reply" where
  "integer_value data =
     (case py_int data of Some i \<Rightarrow> RInt i | None \<Rightarrow> RInvalid (invalid_message data))"

definition integerReceived :: "state \<Rightarrow> string \<Rightarrow> result" where
  "integerReceived st data =
     (if multi_bulk_stack st \<noteq> [] then handleMultiBulkElement st (integer_value data)
      else responseReceived st (integer_value data))"

definition bulkDataReceived :: "state \<Rightarrow> reply \<Rightarrow> result" where
  "bulkDataReceived st data = responseReceived (st\<lparr>bulk_length := None\<rparr>) data"

subsection \<open>\<^verbatim>\<open>dataReceived\<close>\<close>

text \<open>
  How a call of \<^verbatim>\<open>dataReceived\<close> ends: the loop condition fails (\<open>Exhausted\<close>), one of the two
  waiting \<^verbatim>\<open>return\<close>s is taken (\<open>NeedMore\<close>, lines 110 and 118), one of the three \<^verbatim>\<open>return\<close>s
  after a reply is taken (\<open>Returned\<close>, lines 146, 159 and 163), or an exception leaves the call.
\<close>

datatype stop = Exhausted | NeedMore | Returned | Raised exn

datatype step = Continue state | Stop stop state

definition continue :: "result \<Rightarrow> step" where
  "continue r = (case r of Ok st \<Rightarrow> Continue st | Raise e st \<Rightarrow> Stop (Raised e) st)"

definition return :: "result \<Rightarrow> step" where
  "return r = (case r of Ok st \<Rightarrow> Stop Returned st | Raise e st \<Rightarrow> Stop (Raised e) st)"

text \<open>One pass through the body of the \<^verbatim>\<open>while self._buffer\<close> loop.\<close>

definition dataReceived_body :: "codec \<Rightarrow> state \<Rightarrow> step" where
  "dataReceived_body cs st =
     (case bulk_length st of
        Some n \<Rightarrow>
          if int (length (buffer st)) < n + 2 then Stop NeedMore st
          else (case decode cs (py_take n (buffer st)) of
                  None \<Rightarrow> Stop (Raised UnicodeDecodeError) st
                | Some data \<Rightarrow>
                    continue (bulkDataReceived (st\<lparr>buffer := py_drop (n + 2) (buffer st)\<rparr>) (RText data)))
      | None \<Rightarrow>
          (case split_crlf (buffer st) of
             None \<Rightarrow> Stop NeedMore st
           | Some (line, rest) \<Rightarrow>
               let st1 = st\<lparr>buffer := rest\<rparr> in
               if length line = 0 then Continue st1
               else
                 let reply_type = take 1 line in
                 (case decode cs (drop 1 line) of
                    None \<Rightarrow> Stop (Raised UnicodeDecodeError) st1
                  | Some reply_data \<Rightarrow>
                      if reply_type = ERROR then continue (errorReceived st1 reply_data)
                      else if reply_type = INTEGER then continue (integerReceived st1 reply_data)
                      else if reply_type = SINGLE_LINE then continue (singleLineReceived st1 reply_data)
                      else if reply_type = BULK then
                        (case py_int reply_data of
                           None \<Rightarrow> return (responseReceived st1 (RInvalid (invalid_message reply_data)))
                         | Some n \<Rightarrow>
                             let st2 = st1\<lparr>bulk_length := Some n\<rparr> in
                             if n = - 1 then continue (bulkDataReceived st2 RNone)
                             else Continue st2)
                      else if reply_type = MULTI_BULK then
                        (case py_int reply_data of
                           None \<Rightarrow> return (responseReceived st1 (RInvalid (invalid_message reply_data)))
                         | Some multi_bulk_length \<Rightarrow>
                             if multi_bulk_length = - 1 then
                               return (multiBulkDataReceived
                                 (st1\<lparr>multi_bulk_stack := (- 1, None) # multi_bulk_stack st1\<rparr>))
                             else
                               let st2 = st1\<lparr>multi_bulk_stack :=
                                               (multi_bulk_length, Some []) # multi_bulk_stack st1\<rparr> in
                               if multi_bulk_length = 0 then continue (multiBulkDataReceived st2)
                               else Continue st2)
                      else Continue st1)))"

fun state_of :: "result \<Rightarrow> state" where
  "state_of (Ok st) = st"
| "state_of (Raise e st) = st"

text \<open>The fields that completing a reply never touches.\<close>

definition same_input :: "state \<Rightarrow> state \<Rightarrow> bool" where
  "same_input st st' = (buffer st' = buffer st \<and> bulk_length st' = bulk_length st \<and>
     disconnected st' = disconnected st \<and> next_deferred st' = next_deferred st \<and>
     transport st' = transport st)"

definition pending_input :: "state \<Rightarrow> nat" where
  "pending_input st = 2 * length (buffer st) + (if bulk_length st = None then 0 else 1)"

text \<open>
  The \<^verbatim>\<open>while\<close> loop. Every pass that continues either consumes bytes of the buffer or
  clears \<^verbatim>\<open>_bulk_length\<close> without growing the buffer, so the loop terminates.
\<close>

function dataReceived_loop :: "codec \<Rightarrow> state \<Rightarrow> stop \<times> state" where
  "dataReceived_loop cs st =
     (if buffer st = [] then (Exhausted, st)
      else (case dataReceived_body cs st of
              Continue st' \<Rightarrow> dataReceived_loop cs st'
            | Stop how st' \<Rightarrow> (how, st')))"
  by pat_completeness auto
termination
proof (relation "measure (\<lambda>(cs, st). pending_input st)")
  show "wf (measure (\<lambda>(cs, st). pending_input st))" by simp
next
  fix cs :: codec and st st' :: state
  assume nonempty: "buffer st \<noteq> []" and body: "dataReceived_body cs st = Continue st'"
  have frame:
    "\<And>s el. same_input s (state_of (handleMultiBulkElement s el))"
    "\<And>s. same_input s (state_of (multiBulkDataReceived s))"
    "\<And>s r. same_input s (state_of (handleCompleteMultiBulkData s r))"
    "\<And>s r. same_input s (state_of (responseReceived s r))"
  proof -
    fix s el r
    have "same_input s (state_of (handleMultiBulkElement s el))"
      and "same_input s (state_of (multiBulkDataReceived s))"
      and "same_input s (state_of (handleCompleteMultiBulkData s r))"
      and "same_input s (state_of (responseReceived s r))"
    proof (induction s el and s and s r and s r
        rule: handleMultiBulkElement_multiBulkDataReceived_handleCompleteMultiBulkData_responseReceived.induct)
      case (1 st element)
      then show ?case
        by (simp add: handleMultiBulkElement.simps same_input_def split: list.splits option.splits)
    next
      case (2 st)
      then show ?case
        by (simp add: multiBulkDataReceived.simps same_input_def split: list.splits option.splits)
    next
      case (3 st reply)
      then show ?case by (simp add: handleCompleteMultiBulkData.simps)
    next
      case (4 st reply)
      then show ?case by (simp add: responseReceived.simps same_input_def split: list.splits)
    qed
    then show "same_input s (state_of (handleMultiBulkElement s el))"
      and "same_input s (state_of (multiBulkDataReceived s))"
      and "same_input s (state_of (handleCompleteMultiBulkData s r))"
      and "same_input s (state_of (responseReceived s r))" by simp_all
  qed
  have cont: "\<And>r s. continue r = Continue s \<Longrightarrow> s = state_of r"
    by (simp add: continue_def split: result.splits)
  have ret: "\<And>r s. return r \<noteq> Continue s"
    by (simp add: return_def split: result.splits)
  have split_len: "\<And>b l r. split_crlf b = Some (l, r) \<Longrightarrow> length b = length l + 2 + length r"
  proof -
    fix b l r show "split_crlf b = Some (l, r) \<Longrightarrow> length b = length l + 2 + length r"
      by (induction b arbitrary: l rule: split_crlf.induct) (auto split: if_splits option.splits)
  qed
  have "pending_input st' < pending_input st"
  proof (cases "bulk_length st")
    case (Some n)
    with body obtain data where
      st': "st' = state_of (bulkDataReceived (st\<lparr>buffer := py_drop (n + 2) (buffer st)\<rparr>) (RText data))"
      by (auto simp: dataReceived_body_def split: if_splits option.splits dest: cont)
    have "same_input (st\<lparr>buffer := py_drop (n + 2) (buffer st), bulk_length := None\<rparr>) st'"
      unfolding st' bulkDataReceived_def by (rule frame(4))
    then have "buffer st' = py_drop (n + 2) (buffer st)" and "bulk_length st' = None"
      by (simp_all add: same_input_def)
    then show ?thesis using Some
      by (simp add: pending_input_def py_drop_def)
  next
    case None
    then obtain line rest where sp: "split_crlf (buffer st) = Some (line, rest)"
      using body by (auto simp: dataReceived_body_def split: option.splits)
    have len: "length (buffer st) = length line + 2 + length rest"
      using sp by (rule split_len)
    have buf:
      "\<And>s el. buffer (state_of (handleMultiBulkElement s el)) = buffer s"
      "\<And>s. buffer (state_of (multiBulkDataReceived s)) = buffer s"
      "\<And>s r. buffer (state_of (responseReceived s r)) = buffer s"
      using frame by (simp_all add: same_input_def)
    have handlers:
      "\<And>s d. buffer (state_of (errorReceived s d)) = buffer s"
      "\<And>s d. buffer (state_of (integerReceived s d)) = buffer s"
      "\<And>s d. buffer (state_of (singleLineReceived s d)) = buffer s"
      "\<And>s d. buffer (state_of (bulkDataReceived s d)) = buffer s"
      by (simp_all add: errorReceived_def integerReceived_def singleLineReceived_def
            bulkDataReceived_def buf split: list.splits)
    have "buffer st' = rest"
      using body None sp
      by (auto simp: dataReceived_body_def Let_def ret buf handlers
            split: if_splits option.splits dest!: cont)
    then show ?thesis using len by (simp add: pending_input_def)
  qed
  then show "((cs, st'), (cs, st)) \<in> measure (\<lambda>(cs, st). pending_input st)" by simp
qed

declare dataReceived_loop.simps [simp del]

definition dataReceived :: "codec \<Rightarrow> state \<Rightarrow> bytes \<Rightarrow> stop \<times> state" where
  "dataReceived cs st data = dataReceived_loop cs (st\<lparr>buffer := buffer st @ data\<rparr>)"

subsection \<open>The request queue\<close>

fun failRequests_loop :: "deferred list \<Rightarrow> exn \<Rightarrow> (deferred \<times> outcome) list" where
  "failRequests_loop [] reason = []"
| "failRequests_loop (d # q) reason = (d, Errback reason) # failRequests_loop q reason"

definition failRequests :: "state \<Rightarrow> exn \<Rightarrow> state" where
  "failRequests st reason =
     st\<lparr>request_queue := [], fired := fired st @ failRequests_loop (request_queue st) reason\<rparr>"

definition connectionLost :: "state \<Rightarrow> exn \<Rightarrow> state" where
  "connectionLost st reason = failRequests (st\<lparr>disconnected := True\<rparr>) reason"

text \<open>
  \<^verbatim>\<open>timeoutConnection\<close> also asks the transport to close; the transport answers with
  \<^verbatim>\<open>connectionLost\<close> later.
\<close>

definition timeoutConnection :: "state \<Rightarrow> state" where
  "timeoutConnection st = failRequests st (TimeoutError ''Connection timeout'')"

text \<open>What \<^verbatim>\<open>getResponse\<close> returns: a new \<^verbatim>\<open>Deferred\<close> or \<^verbatim>\<open>defer.fail(...)\<close>.\<close>

datatype future = Pending deferred | Failed exn

definition getResponse :: "state \<Rightarrow> future \<times> state" where
  "getResponse st =
     (if disconnected st then (Failed (RuntimeError ''Not connected''), st)
      else (Pending (next_deferred st),
            st\<lparr>request_queue := request_queue st @ [next_deferred st],
               next_deferred := Suc (next_deferred st)\<rparr>))"

subsection \<open>The encoder\<close>

text \<open>
  The values \<^verbatim>\<open>encode\<close> tells apart. \<open>Float r\<close> is a float whose \<^verbatim>\<open>repr\<close> is \<open>r\<close>, and
  \<open>Obj u\<close> is any other object whose \<^verbatim>\<open>unicode(value)\<close> is \<open>u\<close>.
\<close>

datatype arg =
    Token string
  | Bytes bytes
  | Integer int
  | Float string
  | Text string
  | Obj string

definition encode_value :: "codec \<Rightarrow> arg \<Rightarrow> bytes option" where
  "encode_value cs v =
     (case v of
        Token t \<Rightarrow> Some t
      | Bytes b \<Rightarrow> Some b
      | Integer i \<Rightarrow> Some (str_int i)
      | Float r \<Rightarrow> Some r
      | Text t \<Rightarrow> encode cs t
      | Obj u \<Rightarrow> encode cs u)"

text \<open>\<^verbatim>\<open>command.split(' ')\<close>.\<close>

fun split_space :: "string \<Rightarrow> string list" where
  "split_space [] = [[]]"
| "split_space (c # cs) =
     (if c = CHR '' '' then [] # split_space cs
      else (case split_space cs of
              w # ws \<Rightarrow> (c # w) # ws
            | [] \<Rightarrow> [[c]]))"

text \<open>The \<^verbatim>\<open>for\<close> loop of \<^verbatim>\<open>_pack\<close>, which encodes each argument as it reaches it.\<close>

fun pack_loop :: "codec \<Rightarrow> arg list \<Rightarrow> bytes list \<Rightarrow> bytes \<Rightarrow> exn + bytes list \<times> bytes" where
  "pack_loop cs [] out buff = Inr (out, buff)"
| "pack_loop cs (a # as) out buff =
     (case encode_value cs a of
        None \<Rightarrow> Inl UnicodeEncodeError
      | Some arg \<Rightarrow>
          if length buff > 6000 \<or> length arg > 6000
          then pack_loop cs as
                 (out @ [buff @ SYM_DOLLAR @ str_nat (length arg) @ SYM_CRLF, arg]) SYM_CRLF
          else pack_loop cs as out
                 (buff @ SYM_DOLLAR @ str_nat (length arg) @ SYM_CRLF @ arg @ SYM_CRLF))"

definition pack_args :: "string \<Rightarrow> arg list \<Rightarrow> arg list" where
  "pack_args command args =
     (if CHR '' '' \<in> set command then map Token (split_space command) @ args
      else [Token command] @ args)"

text \<open>\<^verbatim>\<open>_pack\<close>, called with the command name and the remaining arguments.\<close>

definition pack :: "codec \<Rightarrow> string \<Rightarrow> arg list \<Rightarrow> exn + bytes list" where
  "pack cs command args =
     (let args' = pack_args command args;
          buff = SYM_STAR @ str_nat (length args') @ SYM_CRLF
      in case pack_loop cs args' [] buff of
           Inl e \<Rightarrow> Inl e
         | Inr (out, buff') \<Rightarrow> Inr (out @ [buff']))"

text \<open>\<^verbatim>\<open>_send\<close> and \<^verbatim>\<open>send\<close>. An exception of the encoder leaves \<^verbatim>\<open>send\<close> before anything is written.\<close>

definition send_parts :: "codec \<Rightarrow> state \<Rightarrow> string \<Rightarrow> arg list \<Rightarrow> exn + state" where
  "send_parts cs st command args =
     (case pack cs command args of
        Inl e \<Rightarrow> Inl e
      | Inr parts \<Rightarrow> Inr (st\<lparr>transport := transport st @ parts\<rparr>))"

definition send :: "codec \<Rightarrow> state \<Rightarrow> string \<Rightarrow> arg list \<Rightarrow> exn + future \<times> state" where
  "send cs st command args =
     (case send_parts cs st command args of
        Inl e \<Rightarrow> Inl e
      | Inr st' \<Rightarrow> Inr (getResponse st'))"

subsection \<open>The canonical request encoding\<close>

text \<open>
  The encoding as the specification words it: \<^verbatim>\<open>*<argcount>\r\n\<close> followed by
  \<^verbatim>\<open>$<byteLength>\r\n<bytes>\r\n\<close> for each argument.
\<close>

definition bulk_item :: "bytes \<Rightarrow> bytes" where
  "bulk_item b = ''$'' @ str_nat (length b) @ [CHR 0x0D, CHR 0x0A] @ b @ [CHR 0x0D, CHR 0x0A]"

definition canonical :: "bytes list \<Rightarrow> bytes" where
  "canonical bs = ''*'' @ str_nat (length bs) @ [CHR 0x0D, CHR 0x0A] @ concat (map bulk_item bs)"

subsection \<open>Calls in the order they happen\<close>

text \<open>
  The calls that reach one protocol instance: the caller's \<^verbatim>\<open>send\<close>, and the transport's
  \<^verbatim>\<open>dataReceived\<close>, \<^verbatim>\<open>connectionLost\<close> and \<^verbatim>\<open>timeoutConnection\<close>. An exception that leaves
  a call goes to its caller; the instance keeps the state it had reached.
\<close>

datatype event = Send string "arg list" | Data bytes | Lost exn | Timeout

fun deliver :: "codec \<Rightarrow> state \<Rightarrow> event \<Rightarrow> state" where
  "deliver cs st (Send command args) =
     (case send cs st command args of Inl e \<Rightarrow> st | Inr (d, st') \<Rightarrow> st')"
| "deliver cs st (Data data) = snd (dataReceived cs st data)"
| "deliver cs st (Lost reason) = connectionLost st reason"
| "deliver cs st Timeout = timeoutConnection st"

definition run :: "codec \<Rightarrow> state \<Rightarrow> event list \<Rightarrow> state" where
  "run cs st evs = foldl (deliver cs) st evs"

subsection \<open>Predicates and inputs used in the statements\<close>

text \<open>The state a call of the body or of a handler leaves behind, however the call ended.\<close>

fun step_state :: "step \<Rightarrow> state" where
  "step_state (Continue st) = st"
| "step_state (Stop how st) = st"

text \<open>
  The requests fired so far, followed by those still queued, are the requests created, in the
  order of their creation.
\<close>

definition fifo_inv :: "state \<Rightarrow> bool" where
  "fifo_inv st = (map fst (fired st) @ request_queue st = [0..<next_deferred st])"

text \<open>
  Between two states, requests were only taken from the head of the queue, and were fired in the
  order they were taken.
\<close>

definition served :: "state \<Rightarrow> state \<Rightarrow> bool" where
  "served st st' = (\<exists>ds. request_queue st = ds @ request_queue st' \<and>
                         map fst (fired st') = map fst (fired st) @ ds)"

text \<open>The fields that \<^verbatim>\<open>dataReceived\<close> never writes.\<close>

definition kept :: "state \<Rightarrow> state \<Rightarrow> bool" where
  "kept st st' = (disconnected st' = disconnected st \<and> next_deferred st' = next_deferred st \<and>
     transport st' = transport st)"

text \<open>A status reply on the wire, a text that survives the line framing and the charset
  unchanged, a command the encoder accepts, and a list of \<^verbatim>\<open>send\<close> calls.\<close>

definition status_line :: "string \<Rightarrow> bytes" where
  "status_line t = ''+'' @ t @ SYM_CRLF"

definition plain_text :: "codec \<Rightarrow> string \<Rightarrow> bool" where
  "plain_text cs t = (CHR 0x0D \<notin> set t \<and> decode cs t = Some t)"

definition packs :: "codec \<Rightarrow> string \<times> arg list \<Rightarrow> bool" where
  "packs cs cmd = (\<not> isl (pack cs (fst cmd) (snd cmd)))"

definition sends :: "(string \<times> arg list) list \<Rightarrow> event list" where
  "sends cmds = map (\<lambda>(command, args). Send command args) cmds"

text \<open>States with requests pending, and one with two array frames open.\<close>

definition two_pending :: state where
  "two_pending = init\<lparr>request_queue := [0, 1], next_deferred := 2\<rparr>"

definition three_pending :: state where
  "three_pending = init\<lparr>request_queue := [0, 1, 2], next_deferred := 3\<rparr>"

definition status_buffered :: state where
  "status_buffered = init\<lparr>buffer := ''+OK'' @ SYM_CRLF, request_queue := [0], next_deferred := 1\<rparr>"

definition bulk_buffered :: state where
  "bulk_buffered = init\<lparr>buffer := ''ab'' @ SYM_CRLF, bulk_length := Some 2, request_queue := [0],
                        next_deferred := 1\<rparr>"

definition nested :: state where
  "nested = init\<lparr>multi_bulk_stack := [(1, Some [RInt 1]), (2, Some [RNone])],
                 request_queue := [0], next_deferred := 1\<rparr>"

subsection \<open>Runs that do not depend on chunk boundaries\<close>

text \<open>The same state with more bytes at the end of the buffer.\<close>

definition more :: "state \<Rightarrow> bytes \<Rightarrow> state" where
  "more st b = st\<lparr>buffer := buffer st @ b\<rparr>"

fun result_more :: "result \<Rightarrow> bytes \<Rightarrow> result" where
  "result_more (Ok st) b = Ok (more st b)"
| "result_more (Raise e st) b = Raise e (more st b)"

fun step_more :: "step \<Rightarrow> bytes \<Rightarrow> step" where
  "step_more (Continue st) b = Continue (more st b)"
| "step_more (Stop how st) b = Stop how (more st b)"

text \<open>
  A run of the loop is steady when it ends at the loop condition or at one of the two waiting
  \<^verbatim>\<open>return\<close>s, and every pass that reads a bulk payload does so under a declared length that
  is not negative.
\<close>

inductive steady :: "codec \<Rightarrow> state \<Rightarrow> bool" for cs where
  steady_empty: "buffer st = [] \<Longrightarrow> steady cs st"
| steady_wait: "buffer st \<noteq> [] \<Longrightarrow> dataReceived_body cs st = Stop NeedMore st' \<Longrightarrow> steady cs st"
| steady_pass: "buffer st \<noteq> [] \<Longrightarrow> (\<forall>n. bulk_length st = Some n \<longrightarrow> 0 \<le> n) \<Longrightarrow>
     dataReceived_body cs st = Continue st' \<Longrightarrow> steady cs st' \<Longrightarrow> steady cs st"

section \<open>The decoder\<close>

subsection \<open>Lines and loop passes\<close>

lemma split_crlf_append:
  "split_crlf l = None \<Longrightarrow> split_crlf (l @ SYM_CRLF @ rest) = Some (l, rest)"
proof (induction l rule: split_crlf.induct)
  case (1 a b r)
  then show ?case by (auto simp: SYM_CRLF_def split: if_splits option.splits)
qed (simp_all add: SYM_CRLF_def)

lemma split_crlf_Some:
  "split_crlf b = Some (l, r) \<Longrightarrow> b = l @ SYM_CRLF @ r"
proof (induction b arbitrary: l rule: split_crlf.induct)
  case (1 a b rest)
  then show ?case
    by (auto simp: SYM_CRLF_def split: if_splits option.splits)
qed simp_all

lemma split_crlf_line:
  "split_crlf b = Some (l, r) \<Longrightarrow> split_crlf l = None"
proof (induction b arbitrary: l rule: split_crlf.induct)
  case (1 a b rest)
  show ?case
  proof (cases "a = CHR 0x0D \<and> b = CHR 0x0A")
    case True
    with 1 show ?thesis by simp
  next
    case False
    with 1 obtain l' where l: "l = a # l'" and sp: "split_crlf (b # rest) = Some (l', r)"
      by (auto split: option.splits)
    have none: "split_crlf l' = None" using 1 False sp by simp
    have eq: "b # rest = l' @ SYM_CRLF @ r" using sp by (rule split_crlf_Some)
    show ?thesis
    proof (cases l')
      case Nil
      then show ?thesis using l by simp
    next
      case (Cons c l'')
      then have "c = b" using eq by simp
      then show ?thesis using l Cons none False by simp
    qed
  qed
qed simp_all

lemma loop_empty: "buffer st = [] \<Longrightarrow> dataReceived_loop cs st = (Exhausted, st)"
  by (simp add: dataReceived_loop.simps)

lemma loop_continue:
  "buffer st \<noteq> [] \<Longrightarrow> dataReceived_body cs st = Continue st' \<Longrightarrow>
   dataReceived_loop cs st = dataReceived_loop cs st'"
  by (subst dataReceived_loop.simps) simp

lemma loop_stop:
  "buffer st \<noteq> [] \<Longrightarrow> dataReceived_body cs st = Stop how st' \<Longrightarrow>
   dataReceived_loop cs st = (how, st')"
  by (subst dataReceived_loop.simps) simp

lemma responseReceived_top:
  "multi_bulk_stack st = [] \<Longrightarrow> request_queue st = d # q \<Longrightarrow>
   responseReceived st r = Ok (st\<lparr>request_queue := q, fired := fired st @ [(d, Callback r)]\<rparr>)"
  by (simp add: responseReceived.simps)

lemma responseReceived_drop:
  "multi_bulk_stack st = [] \<Longrightarrow> request_queue st = [] \<Longrightarrow> responseReceived st r = Ok st"
  by (simp add: responseReceived.simps)

lemma py_int_examples:
  "py_int ''-1'' = Some (- 1)" "py_int ''0'' = Some 0"
  by (simp_all add: py_int_def py_strip_def py_space_def py_digits_def is_digit_def digit_val_def)

lemma py_int_whitespace:
  "py_int [CHR 0x1C, CHR ''5''] = None" "py_int [CHR 0x1E, CHR ''-'', CHR ''1''] = None"
  "py_int [CHR 0xA0, CHR ''5'', CHR 0x09] = Some 5" "py_int '' -1_0 '' = Some (- 10)"
  by (simp_all add: py_int_def py_strip_def py_space_def py_digits_def is_digit_def digit_val_def)

lemma no_cr_split: "CHR 0x0D \<notin> set l \<Longrightarrow> split_crlf l = None"
  by (induction l rule: split_crlf.induct) (auto split: option.splits)

lemma body_line:
  assumes "bulk_length st = None" "buffer st = (c # txt) @ SYM_CRLF @ rest"
    "split_crlf (c # txt) = None" "decode cs txt = Some t"
  shows "dataReceived_body cs st =
     (let st1 = st\<lparr>buffer := rest\<rparr> in
      if [c] = ERROR then continue (errorReceived st1 t)
      else if [c] = INTEGER then continue (integerReceived st1 t)
      else if [c] = SINGLE_LINE then continue (singleLineReceived st1 t)
      else if [c] = BULK then
        (case py_int t of
           None \<Rightarrow> return (responseReceived st1 (RInvalid (invalid_message t)))
         | Some n \<Rightarrow>
             if n = - 1 then continue (bulkDataReceived (st1\<lparr>bulk_length := Some n\<rparr>) RNone)
             else Continue (st1\<lparr>bulk_length := Some n\<rparr>))
      else if [c] = MULTI_BULK then
        (case py_int t of
           None \<Rightarrow> return (responseReceived st1 (RInvalid (invalid_message t)))
         | Some n \<Rightarrow>
             if n = - 1 then
               return (multiBulkDataReceived (st1\<lparr>multi_bulk_stack := (- 1, None) # multi_bulk_stack st1\<rparr>))
             else if n = 0 then
               continue (multiBulkDataReceived (st1\<lparr>multi_bulk_stack := (n, Some []) # multi_bulk_stack st1\<rparr>))
             else Continue (st1\<lparr>multi_bulk_stack := (n, Some []) # multi_bulk_stack st1\<rparr>))
      else Continue st1)"
  using assms split_crlf_append[of "c # txt" rest]
  by (auto simp: dataReceived_body_def Let_def split: option.splits)

subsection \<open>What completing a reply and a call of \<^verbatim>\<open>dataReceived\<close> leave alone\<close>

lemma completion_same_input:
  "same_input st (state_of (handleMultiBulkElement st el))"
  "same_input st (state_of (multiBulkDataReceived st))"
  "same_input st (state_of (handleCompleteMultiBulkData st r))"
  "same_input st (state_of (responseReceived st r))"
proof (induction st el and st and st r and st r
    rule: handleMultiBulkElement_multiBulkDataReceived_handleCompleteMultiBulkData_responseReceived.induct)
  case (1 st element)
  then show ?case
    by (simp add: handleMultiBulkElement.simps same_input_def split: list.splits option.splits)
next
  case (2 st)
  then show ?case
    by (simp add: multiBulkDataReceived.simps same_input_def split: list.splits option.splits)
next
  case (3 st reply)
  then show ?case by (simp add: handleCompleteMultiBulkData.simps)
next
  case (4 st reply)
  then show ?case by (simp add: responseReceived.simps same_input_def split: list.splits)
qed

lemma served_refl: "served st st"
  by (simp add: served_def)

lemma served_trans: "served a b \<Longrightarrow> served b c \<Longrightarrow> served a c"
  unfolding served_def by (metis append.assoc)

lemma served_cong:
  "request_queue a' = request_queue a \<Longrightarrow> fired a' = fired a \<Longrightarrow> served a' b \<Longrightarrow> served a b"
  by (simp add: served_def)

lemma served_update [simp]:
  "served (st\<lparr>multi_bulk_stack := s\<rparr>) b = served st b"
  "served st (b\<lparr>multi_bulk_stack := s\<rparr>) = served st b"
  "served (st\<lparr>buffer := x\<rparr>) b = served st b"
  "served st (b\<lparr>buffer := x\<rparr>) = served st b"
  "served (st\<lparr>bulk_length := n\<rparr>) b = served st b"
  "served st (b\<lparr>bulk_length := n\<rparr>) = served st b"
  by (simp_all add: served_def)

lemma served_pop:
  "request_queue st = d # q \<Longrightarrow>
   served st (st\<lparr>request_queue := q, fired := fired st @ [(d, out)]\<rparr>)"
  by (simp add: served_def)

lemma completion_served:
  "served st (state_of (handleMultiBulkElement st el))"
  "served st (state_of (multiBulkDataReceived st))"
  "served st (state_of (handleCompleteMultiBulkData st r))"
  "served st (state_of (responseReceived st r))"
proof (induction st el and st and st r and st r
    rule: handleMultiBulkElement_multiBulkDataReceived_handleCompleteMultiBulkData_responseReceived.induct)
  case (1 st element)
  show ?case
  proof (cases "multi_bulk_stack st")
    case Nil
    then show ?thesis by (simp add: handleMultiBulkElement.simps served_refl)
  next
    case (Cons f fs)
    obtain n xs where f: "f = (n, xs)" by (cases f)
    show ?thesis
    proof (cases xs)
      case None
      then show ?thesis using Cons f by (simp add: handleMultiBulkElement.simps served_refl)
    next
      case (Some rs)
      show ?thesis
      proof (cases "n - 1 = 0")
        case True
        have "served (st\<lparr>multi_bulk_stack := (n - 1, Some (rs @ [element])) # fs\<rparr>)
            (state_of (multiBulkDataReceived (st\<lparr>multi_bulk_stack := (n - 1, Some (rs @ [element])) # fs\<rparr>)))"
          using 1[OF Cons f[symmetric] Some True] .
        then show ?thesis using Cons f Some True by (simp add: handleMultiBulkElement.simps)
      next
        case False
        then show ?thesis using Cons f Some by (simp add: handleMultiBulkElement.simps served_refl)
      qed
    qed
  qed
next
  case (2 st)
  show ?case
  proof (cases "multi_bulk_stack st")
    case Nil
    then show ?thesis by (simp add: multiBulkDataReceived.simps served_refl)
  next
    case (Cons f fs)
    obtain n xs where f: "f = (n, xs)" by (cases f)
    show ?thesis
    proof (cases "fs \<noteq> []")
      case True
      have "served (st\<lparr>multi_bulk_stack := fs\<rparr>)
          (state_of (handleMultiBulkElement (st\<lparr>multi_bulk_stack := fs\<rparr>) (frame_value xs)))"
        using 2(1)[OF Cons f[symmetric] True] .
      then show ?thesis using Cons f True by (simp add: multiBulkDataReceived.simps)
    next
      case False
      have "served (st\<lparr>multi_bulk_stack := fs\<rparr>)
          (state_of (handleCompleteMultiBulkData (st\<lparr>multi_bulk_stack := fs\<rparr>) (frame_value xs)))"
        using 2(2)[OF Cons f[symmetric] False] .
      then show ?thesis using Cons f False by (simp add: multiBulkDataReceived.simps)
    qed
  qed
next
  case (3 st reply)
  then show ?case by (simp add: handleCompleteMultiBulkData.simps)
next
  case (4 st reply)
  show ?case
  proof (cases "multi_bulk_stack st \<noteq> []")
    case True
    then show ?thesis using 4 by (simp add: responseReceived.simps)
  next
    case False
    then show ?thesis
      by (cases "request_queue st") (simp_all add: responseReceived.simps served_refl served_pop)
  qed
qed

lemma state_of_continue [simp]: "step_state (continue r) = state_of r"
  by (cases r) (simp_all add: continue_def)

lemma state_of_return [simp]: "step_state (return r) = state_of r"
  by (cases r) (simp_all add: return_def)

lemma handlers_served:
  "served st (state_of (errorReceived st d))"
  "served st (state_of (integerReceived st d))"
  "served st (state_of (singleLineReceived st d))"
  "served st (state_of (bulkDataReceived st v))"
proof -
  show "served st (state_of (errorReceived st d))"
    by (cases "request_queue st") (simp_all add: errorReceived_def served_refl served_pop)
  show "served st (state_of (integerReceived st d))"
    by (simp add: integerReceived_def completion_served)
  show "served st (state_of (singleLineReceived st d))"
    by (simp add: singleLineReceived_def completion_served)
  have "served (st\<lparr>bulk_length := None\<rparr>) (state_of (responseReceived (st\<lparr>bulk_length := None\<rparr>) v))"
    by (rule completion_served)
  then show "served st (state_of (bulkDataReceived st v))"
    by (simp add: bulkDataReceived_def)
qed

lemma body_served: "served st (step_state (dataReceived_body cs st))"
proof -
  have a: "served st (state_of (responseReceived (st\<lparr>buffer := x\<rparr>) r))" for x r
    using completion_served(4)[of "st\<lparr>buffer := x\<rparr>" r] by simp
  have b: "served st (state_of (multiBulkDataReceived (st\<lparr>buffer := x, multi_bulk_stack := f\<rparr>)))"
    for x f
    using completion_served(2)[of "st\<lparr>buffer := x, multi_bulk_stack := f\<rparr>"] by simp
  have c: "served st (state_of (errorReceived (st\<lparr>buffer := x\<rparr>) d))" for x d
    using handlers_served(1)[of "st\<lparr>buffer := x\<rparr>" d] by simp
  have d: "served st (state_of (integerReceived (st\<lparr>buffer := x\<rparr>) d))" for x d
    using handlers_served(2)[of "st\<lparr>buffer := x\<rparr>" d] by simp
  have e: "served st (state_of (singleLineReceived (st\<lparr>buffer := x\<rparr>) d))" for x d
    using handlers_served(3)[of "st\<lparr>buffer := x\<rparr>" d] by simp
  have f: "served st (state_of (bulkDataReceived (st\<lparr>buffer := x\<rparr>) v))" for x v
    using handlers_served(4)[of "st\<lparr>buffer := x\<rparr>" v] by simp
  have g: "served st (state_of (bulkDataReceived (st\<lparr>buffer := x, bulk_length := n\<rparr>) v))"
    for x n v
    using handlers_served(4)[of "st\<lparr>buffer := x, bulk_length := n\<rparr>" v] by simp
  show ?thesis
    by (simp add: dataReceived_body_def Let_def served_refl a b c d e f g
          split: option.splits prod.splits)
qed

lemma loop_served: "served st (snd (dataReceived_loop cs st))"
proof (induction cs st rule: dataReceived_loop.induct)
  case (1 cs st)
  show ?case
  proof (cases "buffer st = []")
    case True
    then show ?thesis by (simp add: loop_empty served_refl)
  next
    case False
    show ?thesis
    proof (cases "dataReceived_body cs st")
      case (Continue st')
      have "served st st'" using body_served[of st cs] Continue by simp
      moreover have "served st' (snd (dataReceived_loop cs st'))"
        using 1 False Continue by simp
      ultimately show ?thesis
        using loop_continue[OF False Continue] by (auto intro: served_trans)
    next
      case (Stop how st')
      then show ?thesis
        using body_served[of st cs] loop_stop[OF False Stop] by simp
    qed
  qed
qed

lemma dataReceived_served: "served st (snd (dataReceived cs st data))"
  unfolding dataReceived_def
  by (rule served_cong[OF _ _ loop_served]) simp_all

lemma kept_refl: "kept st st"
  by (simp add: kept_def)

lemma kept_trans: "kept a b \<Longrightarrow> kept b c \<Longrightarrow> kept a c"
  by (simp add: kept_def)

lemma kept_update [simp]:
  "kept (st\<lparr>multi_bulk_stack := s\<rparr>) b = kept st b"
  "kept st (b\<lparr>multi_bulk_stack := s\<rparr>) = kept st b"
  "kept (st\<lparr>buffer := x\<rparr>) b = kept st b"
  "kept st (b\<lparr>buffer := x\<rparr>) = kept st b"
  "kept (st\<lparr>bulk_length := n\<rparr>) b = kept st b"
  "kept st (b\<lparr>bulk_length := n\<rparr>) = kept st b"
  "kept st (b\<lparr>request_queue := q\<rparr>) = kept st b"
  "kept st (b\<lparr>fired := f\<rparr>) = kept st b"
  by (simp_all add: kept_def)

lemma same_input_kept: "same_input a b \<Longrightarrow> kept a b"
  by (simp add: same_input_def kept_def)

lemma handlers_kept:
  "kept st (state_of (errorReceived st d))"
  "kept st (state_of (integerReceived st d))"
  "kept st (state_of (singleLineReceived st d))"
  "kept st (state_of (bulkDataReceived st v))"
  "kept st (state_of (responseReceived st v))"
  "kept st (state_of (multiBulkDataReceived st))"
proof -
  show "kept st (state_of (errorReceived st d))"
    by (cases "request_queue st") (simp_all add: errorReceived_def kept_refl)
  show "kept st (state_of (integerReceived st d))"
    by (simp add: integerReceived_def completion_same_input same_input_kept)
  show "kept st (state_of (singleLineReceived st d))"
    by (simp add: singleLineReceived_def completion_same_input same_input_kept)
  show "kept st (state_of (bulkDataReceived st v))"
    using same_input_kept[OF completion_same_input(4)[of "st\<lparr>bulk_length := None\<rparr>" v]]
    by (simp add: bulkDataReceived_def)
  show "kept st (state_of (responseReceived st v))"
    by (simp add: completion_same_input same_input_kept)
  show "kept st (state_of (multiBulkDataReceived st))"
    by (simp add: completion_same_input same_input_kept)
qed

lemma body_kept: "kept st (step_state (dataReceived_body cs st))"
proof -
  have a: "kept st (state_of (responseReceived (st\<lparr>buffer := x\<rparr>) r))" for x r
    using handlers_kept(5)[of "st\<lparr>buffer := x\<rparr>" r] by simp
  have b: "kept st (state_of (multiBulkDataReceived (st\<lparr>buffer := x, multi_bulk_stack := f\<rparr>)))"
    for x f
    using handlers_kept(6)[of "st\<lparr>buffer := x, multi_bulk_stack := f\<rparr>"] by simp
  have c: "kept st (state_of (errorReceived (st\<lparr>buffer := x\<rparr>) d))" for x d
    using handlers_kept(1)[of "st\<lparr>buffer := x\<rparr>" d] by simp
  have d: "kept st (state_of (integerReceived (st\<lparr>buffer := x\<rparr>) d))" for x d
    using handlers_kept(2)[of "st\<lparr>buffer := x\<rparr>" d] by simp
  have e: "kept st (state_of (singleLineReceived (st\<lparr>buffer := x\<rparr>) d))" for x d
    using handlers_kept(3)[of "st\<lparr>buffer := x\<rparr>" d] by simp
  have f: "kept st (state_of (bulkDataReceived (st\<lparr>buffer := x\<rparr>) v))" for x v
    using handlers_kept(4)[of "st\<lparr>buffer := x\<rparr>" v] by simp
  have g: "kept st (state_of (bulkDataReceived (st\<lparr>buffer := x, bulk_length := n\<rparr>) v))"
    for x n v
    using handlers_kept(4)[of "st\<lparr>buffer := x, bulk_length := n\<rparr>" v] by simp
  show ?thesis
    by (simp add: dataReceived_body_def Let_def kept_refl a b c d e f g
          split: option.splits prod.splits)
qed

lemma loop_kept: "kept st (snd (dataReceived_loop cs st))"
proof (induction cs st rule: dataReceived_loop.induct)
  case (1 cs st)
  show ?case
  proof (cases "buffer st = []")
    case True
    then show ?thesis by (simp add: loop_empty kept_refl)
  next
    case False
    show ?thesis
    proof (cases "dataReceived_body cs st")
      case (Continue st')
      have "kept st st'" using body_kept[of st cs] Continue by simp
      moreover have "kept st' (snd (dataReceived_loop cs st'))"
        using 1 False Continue by simp
      ultimately show ?thesis
        using loop_continue[OF False Continue] by (auto intro: kept_trans)
    next
      case (Stop how st')
      then show ?thesis
        using body_kept[of st cs] loop_stop[OF False Stop] by simp
    qed
  qed
qed

lemma dataReceived_kept: "kept st (snd (dataReceived cs st data))"
  using loop_kept[of "st\<lparr>buffer := buffer st @ data\<rparr>" cs] by (simp add: dataReceived_def)

lemma failRequests_loop_map: "failRequests_loop q reason = map (\<lambda>d. (d, Errback reason)) q"
  by (induction q) simp_all

lemma served_empty: "served st st' \<Longrightarrow> request_queue st = [] \<Longrightarrow> request_queue st' = []"
  by (auto simp: served_def)

section \<open>The encoder\<close>

lemma those_length: "those xs = Some ys \<Longrightarrow> length ys = length xs"
  by (induction xs arbitrary: ys) (auto split: option.splits)

text \<open>
  The loop invariant of \<^verbatim>\<open>_pack\<close>: what has been flushed, followed by the pending buffer, is
  what a single buffer would hold. Both branches of the size test extend it by one item.
\<close>

lemma pack_loop_concat:
  "(case pack_loop cs as out buff of
      Inl e \<Rightarrow> e = UnicodeEncodeError \<and> those (map (encode_value cs) as) = None
    | Inr (out', buff') \<Rightarrow>
        (\<exists>bs. those (map (encode_value cs) as) = Some bs \<and>
          concat out' @ buff' = concat out @ buff @ concat (map bulk_item bs)))"
proof (induction as arbitrary: out buff)
  case Nil
  then show ?case by simp
next
  case (Cons a as)
  show ?case
  proof (cases "encode_value cs a")
    case None
    then show ?thesis by simp
  next
    case (Some arg)
    show ?thesis
    proof (cases "length buff > 6000 \<or> length arg > 6000")
      case True
      then have step: "pack_loop cs (a # as) out buff =
          pack_loop cs as (out @ [buff @ SYM_DOLLAR @ str_nat (length arg) @ SYM_CRLF, arg]) SYM_CRLF"
        using Some by simp
      have acc: "concat (out @ [buff @ SYM_DOLLAR @ str_nat (length arg) @ SYM_CRLF, arg]) @ SYM_CRLF
          = concat out @ buff @ bulk_item arg"
        by (simp add: bulk_item_def SYM_DOLLAR_def SYM_CRLF_def)
      show ?thesis
        using Cons.IH[of "out @ [buff @ SYM_DOLLAR @ str_nat (length arg) @ SYM_CRLF, arg]" SYM_CRLF]
        unfolding step using Some acc
        by (auto split: sum.splits option.splits prod.splits)
    next
      case False
      then have step: "pack_loop cs (a # as) out buff =
          pack_loop cs as out (buff @ SYM_DOLLAR @ str_nat (length arg) @ SYM_CRLF @ arg @ SYM_CRLF)"
        using Some by simp
      have acc: "buff @ SYM_DOLLAR @ str_nat (length arg) @ SYM_CRLF @ arg @ SYM_CRLF = buff @ bulk_item arg"
        by (simp add: bulk_item_def SYM_DOLLAR_def SYM_CRLF_def)
      show ?thesis
        using Cons.IH[of out "buff @ SYM_DOLLAR @ str_nat (length arg) @ SYM_CRLF @ arg @ SYM_CRLF"]
        unfolding step using Some acc
        by (auto split: sum.splits option.splits prod.splits)
    qed
  qed
qed

text \<open>
  Claim C7. For every command and argument list, the chunks that \<^verbatim>\<open>_pack\<close> returns, joined,
  are the canonical single-buffer encoding of the encoded arguments, whichever branch of the
  size test each argument took. When an argument cannot be encoded, \<^verbatim>\<open>_pack\<close> raises instead.
\<close>

theorem pack_canonical:
  "map_sum id concat (pack cs command args) =
     (case those (map (encode_value cs) (pack_args command args)) of
        None \<Rightarrow> Inl UnicodeEncodeError
      | Some bs \<Rightarrow> Inr (canonical bs))"
  using pack_loop_concat[of cs "pack_args command args" "[]"
          "SYM_STAR @ str_nat (length (pack_args command args)) @ SYM_CRLF"]
        those_length[of "map (encode_value cs) (pack_args command args)"]
  by (auto simp: pack_def Let_def canonical_def SYM_STAR_def SYM_CRLF_def
           split: sum.splits option.splits)

text \<open>The flushing branch is reachable: an argument of 6001 bytes is written as a chunk of its own.\<close>

lemma pack_flushes_large_argument:
  "pack cs ''SET'' [Bytes ''k'', Bytes (replicate 6001 (CHR ''x''))] =
     Inr [''*3'' @ SYM_CRLF @ ''$3'' @ SYM_CRLF @ ''SET'' @ SYM_CRLF @ ''$1'' @ SYM_CRLF @ ''k'' @ SYM_CRLF
            @ ''$6001'' @ SYM_CRLF,
          replicate 6001 (CHR ''x''),
          SYM_CRLF]"
proof -
  have n: "str_nat (Suc 0) = ''1''" "str_nat (Suc (Suc (Suc 0))) = ''3''" "str_nat 6001 = ''6001''"
    by (simp_all add: str_nat.simps digit_char_def)
  show ?thesis
    by (simp add: pack_def pack_args_def encode_value_def n SYM_STAR_def SYM_DOLLAR_def SYM_CRLF_def)
qed

text \<open>
  Claim C6. \<^verbatim>\<open>send("CONFIG GET", "maxmemory")\<close> splits the command name into the two literal
  tokens \<^verbatim>\<open>CONFIG\<close> and \<^verbatim>\<open>GET\<close>, length-prefixes them and the argument, and writes exactly
  \<^verbatim>\<open>*3\r\n$6\r\nCONFIG\r\n$3\r\nGET\r\n$9\r\nmaxmemory\r\n\<close> to the transport, for every
  charset that encodes the ASCII text \<^verbatim>\<open>maxmemory\<close> as itself.
\<close>

theorem send_config_get:
  assumes "encode cs ''maxmemory'' = Some ''maxmemory''"
  shows "pack cs ''CONFIG GET'' [Text ''maxmemory''] =
           Inr [''*3'' @ SYM_CRLF @ ''$6'' @ SYM_CRLF @ ''CONFIG'' @ SYM_CRLF @
                ''$3'' @ SYM_CRLF @ ''GET'' @ SYM_CRLF @ ''$9'' @ SYM_CRLF @ ''maxmemory'' @ SYM_CRLF]
       \<and> send cs st ''CONFIG GET'' [Text ''maxmemory''] =
           Inr (getResponse (st\<lparr>transport := transport st @
                [''*3'' @ SYM_CRLF @ ''$6'' @ SYM_CRLF @ ''CONFIG'' @ SYM_CRLF @
                 ''$3'' @ SYM_CRLF @ ''GET'' @ SYM_CRLF @ ''$9'' @ SYM_CRLF @ ''maxmemory'' @ SYM_CRLF]\<rparr>))"
proof -
  have n: "str_nat (Suc (Suc (Suc 0))) = ''3''"
    "str_nat (Suc (Suc (Suc (Suc (Suc (Suc 0)))))) = ''6''"
    "str_nat (Suc (Suc (Suc (Suc (Suc (Suc (Suc (Suc (Suc 0))))))))) = ''9''"
    by (simp_all add: str_nat.simps digit_char_def)
  have p: "pack cs ''CONFIG GET'' [Text ''maxmemory''] =
           Inr [''*3'' @ SYM_CRLF @ ''$6'' @ SYM_CRLF @ ''CONFIG'' @ SYM_CRLF @
                ''$3'' @ SYM_CRLF @ ''GET'' @ SYM_CRLF @ ''$9'' @ SYM_CRLF @ ''maxmemory'' @ SYM_CRLF]"
    using assms
    by (simp add: pack_def pack_args_def encode_value_def n SYM_STAR_def SYM_DOLLAR_def SYM_CRLF_def)
  show ?thesis
    unfolding send_def send_parts_def p by simp
qed

theorem send_config_get_witness:
  "encode ascii_strict ''maxmemory'' = Some ''maxmemory'' \<and>
   pack ascii_strict ''CONFIG GET'' [Text ''maxmemory''] =
     Inr [''*3'' @ SYM_CRLF @ ''$6'' @ SYM_CRLF @ ''CONFIG'' @ SYM_CRLF @
          ''$3'' @ SYM_CRLF @ ''GET'' @ SYM_CRLF @ ''$9'' @ SYM_CRLF @ ''maxmemory'' @ SYM_CRLF] \<and>
   transport (snd (projr (send ascii_strict init ''CONFIG GET'' [Text ''maxmemory'']))) =
     [''*3'' @ SYM_CRLF @ ''$6'' @ SYM_CRLF @ ''CONFIG'' @ SYM_CRLF @
      ''$3'' @ SYM_CRLF @ ''GET'' @ SYM_CRLF @ ''$9'' @ SYM_CRLF @ ''maxmemory'' @ SYM_CRLF]"
proof -
  have h: "encode ascii_strict ''maxmemory'' = Some ''maxmemory''"
    by (simp add: ascii_strict_def is_ascii_def)
  show ?thesis
    using h send_config_get[OF h, of init]
    by (simp add: getResponse_def init_def)
qed

section \<open>Null and empty replies\<close>

text \<open>
  Claim C5. With one request pending and nothing buffered, feeding \<^verbatim>\<open>$-1\r\n\<close> completes the
  request with the null value; feeding \<^verbatim>\<open>*-1\r\n\<close> completes it with the null array, which is
  the same \<^verbatim>\<open>None\<close>; feeding \<^verbatim>\<open>*0\r\n\<close> completes it with the empty list, which differs from
  both. The charset is any that decodes the ASCII texts \<^verbatim>\<open>-1\<close> and \<^verbatim>\<open>0\<close> as themselves.
\<close>

theorem null_replies:
  assumes dec: "decode cs ''-1'' = Some ''-1''" "decode cs ''0'' = Some ''0''"
    and st: "buffer st = []" "bulk_length st = None" "multi_bulk_stack st = []"
        "request_queue st = d # q"
  shows "dataReceived cs st (''$-1'' @ SYM_CRLF) =
           (Exhausted, st\<lparr>buffer := [], request_queue := q, fired := fired st @ [(d, Callback RNone)]\<rparr>)
       \<and> dataReceived cs st (''*-1'' @ SYM_CRLF) =
           (Returned, st\<lparr>buffer := [], request_queue := q, fired := fired st @ [(d, Callback RNone)]\<rparr>)
       \<and> dataReceived cs st (''*0'' @ SYM_CRLF) =
           (Exhausted, st\<lparr>buffer := [], request_queue := q, fired := fired st @ [(d, Callback (RList []))]\<rparr>)
       \<and> RNone \<noteq> RList []"
proof -
  have a: "dataReceived_body cs (st\<lparr>buffer := ''$-1'' @ SYM_CRLF\<rparr>) =
      Continue (st\<lparr>buffer := [], bulk_length := None, request_queue := q, fired := fired st @ [(d, Callback RNone)]\<rparr>)"
    using dec st
    by (simp add: dataReceived_body_def SYM_CRLF_def ERROR_def INTEGER_def SINGLE_LINE_def BULK_def
          MULTI_BULK_def py_int_examples bulkDataReceived_def responseReceived.simps continue_def)
  have b: "dataReceived_body cs (st\<lparr>buffer := ''*-1'' @ SYM_CRLF\<rparr>) =
      Stop Returned (st\<lparr>buffer := [], multi_bulk_stack := [], request_queue := q, fired := fired st @ [(d, Callback RNone)]\<rparr>)"
    using dec st
    by (simp add: dataReceived_body_def SYM_CRLF_def ERROR_def INTEGER_def SINGLE_LINE_def BULK_def
          MULTI_BULK_def py_int_examples multiBulkDataReceived.simps handleCompleteMultiBulkData.simps
          responseReceived.simps return_def frame_value_def)
  have c: "dataReceived_body cs (st\<lparr>buffer := ''*0'' @ SYM_CRLF\<rparr>) =
      Continue (st\<lparr>buffer := [], multi_bulk_stack := [], request_queue := q, fired := fired st @ [(d, Callback (RList []))]\<rparr>)"
    using dec st
    by (simp add: dataReceived_body_def SYM_CRLF_def ERROR_def INTEGER_def SINGLE_LINE_def BULK_def
          MULTI_BULK_def py_int_examples multiBulkDataReceived.simps handleCompleteMultiBulkData.simps
          responseReceived.simps continue_def frame_value_def)
  have e1: "st\<lparr>buffer := [], bulk_length := None, request_queue := q, fired := fired st @ [(d, Callback RNone)]\<rparr>
       = st\<lparr>buffer := [], request_queue := q, fired := fired st @ [(d, Callback RNone)]\<rparr>"
    using st by simp
  have e2: "\<And>v. st\<lparr>buffer := [], multi_bulk_stack := [], request_queue := q, fired := fired st @ [(d, Callback v)]\<rparr>
       = st\<lparr>buffer := [], request_queue := q, fired := fired st @ [(d, Callback v)]\<rparr>"
    using st by simp
  show ?thesis
    using st loop_continue[OF _ a] loop_stop[OF _ b] loop_continue[OF _ c]
    by (simp add: dataReceived_def loop_empty e1 e2 SYM_CRLF_def)
qed

theorem null_replies_witness:
  "decode ascii_strict ''-1'' = Some ''-1'' \<and> decode ascii_strict ''0'' = Some ''0'' \<and>
   fired (snd (dataReceived ascii_strict (init\<lparr>request_queue := [0], next_deferred := 1\<rparr>)
     (''$-1'' @ SYM_CRLF))) = [(0, Callback RNone)] \<and>
   fired (snd (dataReceived ascii_strict (init\<lparr>request_queue := [0], next_deferred := 1\<rparr>)
     (''*-1'' @ SYM_CRLF))) = [(0, Callback RNone)] \<and>
   fired (snd (dataReceived ascii_strict (init\<lparr>request_queue := [0], next_deferred := 1\<rparr>)
     (''*0'' @ SYM_CRLF))) = [(0, Callback (RList []))]"
proof -
  have h: "decode ascii_strict ''-1'' = Some ''-1''" "decode ascii_strict ''0'' = Some ''0''"
    by (simp_all add: ascii_strict_def is_ascii_def)
  show ?thesis
    using h null_replies[OF h, of "init\<lparr>request_queue := [0], next_deferred := 1\<rparr>" 0 "[]"]
    by (simp add: init_def)
qed

section \<open>Replies that nobody waits for\<close>

text \<open>An error line met with an empty queue ends the call with the error raised.\<close>

lemma error_line_raises:
  assumes "bulk_length st = None" and "request_queue st = []"
    and "buffer st @ data = (CHR ''-'' # txt) @ SYM_CRLF @ rest"
    and "split_crlf (CHR ''-'' # txt) = None"
    and "decode cs txt = Some t"
  shows "dataReceived cs st data = (Raised (error_reply t), st\<lparr>buffer := rest\<rparr>)"
proof -
  let ?st = "st\<lparr>buffer := buffer st @ data\<rparr>"
  have "dataReceived_body cs ?st = continue (errorReceived (?st\<lparr>buffer := rest\<rparr>) t)"
    using assms body_line[of "?st" "CHR ''-''" "txt" rest cs t] by (simp add: ERROR_def)
  then have "dataReceived_body cs ?st = Stop (Raised (error_reply t)) (st\<lparr>buffer := rest\<rparr>)"
    using assms by (simp add: errorReceived_def continue_def)
  moreover have "buffer ?st \<noteq> []" using assms by simp
  ultimately show ?thesis
    unfolding dataReceived_def by (rule loop_stop[rotated])
qed

text \<open>
  Claim C9. When the next line in the buffer is an error line and no request is queued,
  \<^verbatim>\<open>errorReceived\<close> raises the classified error and the exception leaves \<^verbatim>\<open>dataReceived\<close>:
  the call ends there, with the line consumed and the rest of the buffer kept. The error is
  not dropped. The state may hold open array frames; the line must be decodable.
\<close>

theorem error_with_empty_queue_raises:
  assumes "bulk_length st = None" and "request_queue st = []"
    and "buffer st @ data = (CHR ''-'' # txt) @ SYM_CRLF @ rest"
    and "split_crlf (CHR ''-'' # txt) = None"
    and "decode cs txt = Some t"
  shows "dataReceived cs st data = (Raised (error_reply t), st\<lparr>buffer := rest\<rparr>)"
  using assms by (rule error_line_raises)

theorem error_with_empty_queue_raises_witness:
  "dataReceived ascii_strict init (''-ERR unknown command'' @ SYM_CRLF @ ''+OK'' @ SYM_CRLF) =
     (Raised (ResponseError ''unknown command''), init\<lparr>buffer := ''+OK'' @ SYM_CRLF\<rparr>)"
proof -
  have h: "decode ascii_strict ''ERR unknown command'' = Some ''ERR unknown command''"
    by (simp add: ascii_strict_def is_ascii_def)
  have n: "split_crlf (CHR ''-'' # ''ERR unknown command'') = None"
    by simp
  show ?thesis
    using error_with_empty_queue_raises[of init "''-ERR unknown command'' @ SYM_CRLF @ ''+OK'' @ SYM_CRLF"
        "''ERR unknown command''" "''+OK'' @ SYM_CRLF" ascii_strict "''ERR unknown command''", OF _ _ _ n h]
    by (simp add: init_def error_reply_def)
qed

text \<open>
  Claim C10. With no open array frame and no queued request, \<^verbatim>\<open>responseReceived\<close> returns
  without delivering anything, without raising and without changing the state, while
  \<^verbatim>\<open>errorReceived\<close> raises. Seen from \<^verbatim>\<open>dataReceived\<close> with nothing buffered: a status line
  leaves the state as it was, an error line with the same text raises.
\<close>

theorem unrequested_reply_dropped:
  assumes "multi_bulk_stack st = []" and "request_queue st = []"
  shows "responseReceived st reply = Ok st
       \<and> errorReceived st text = Raise (error_reply text) st
       \<and> (buffer st = [] \<and> bulk_length st = None \<and> CHR 0x0D \<notin> set txt \<and> decode cs txt = Some t \<longrightarrow>
            dataReceived cs st (''+'' @ txt @ SYM_CRLF) = (Exhausted, st)
          \<and> dataReceived cs st (''-'' @ txt @ SYM_CRLF) = (Raised (error_reply t), st))"
proof -
  have a: "responseReceived st reply = Ok st"
    using assms by (rule responseReceived_drop)
  have b: "errorReceived st text = Raise (error_reply text) st"
    using assms by (simp add: errorReceived_def)
  have c: "dataReceived cs st (''+'' @ txt @ SYM_CRLF) = (Exhausted, st)"
    and d: "dataReceived cs st (''-'' @ txt @ SYM_CRLF) = (Raised (error_reply t), st)"
    if h: "buffer st = []" "bulk_length st = None" "CHR 0x0D \<notin> set txt" "decode cs txt = Some t"
  proof -
    let ?st = "st\<lparr>buffer := (CHR ''+'' # txt) @ SYM_CRLF @ []\<rparr>"
    have "dataReceived_body cs ?st = continue (singleLineReceived (?st\<lparr>buffer := []\<rparr>) t)"
      using h body_line[of "?st" "CHR ''+''" "txt" "[]" cs t] no_cr_split[of "CHR ''+'' # txt"]
      by (simp add: ERROR_def INTEGER_def SINGLE_LINE_def)
    then have "dataReceived_body cs ?st = Continue (st\<lparr>buffer := []\<rparr>)"
      using assms by (simp add: singleLineReceived_def responseReceived.simps continue_def)
    then have "dataReceived_loop cs ?st = dataReceived_loop cs (st\<lparr>buffer := []\<rparr>)"
      by (intro loop_continue) simp_all
    then show "dataReceived cs st (''+'' @ txt @ SYM_CRLF) = (Exhausted, st)"
      using h by (simp add: dataReceived_def loop_empty)
    have "dataReceived cs st (''-'' @ txt @ SYM_CRLF) = (Raised (error_reply t), st\<lparr>buffer := []\<rparr>)"
      using h assms no_cr_split[of "CHR ''-'' # txt"]
      by (intro error_line_raises) simp_all
    then show "dataReceived cs st (''-'' @ txt @ SYM_CRLF) = (Raised (error_reply t), st)"
      using h by simp
  qed
  show ?thesis using a b c d by blast
qed

theorem unrequested_reply_dropped_witness:
  "multi_bulk_stack init = [] \<and> request_queue init = [] \<and>
   responseReceived init (RText ''OK'') = Ok init \<and>
   errorReceived init ''ERR no'' = Raise (ResponseError ''no'') init \<and>
   dataReceived ascii_strict init (''+OK'' @ SYM_CRLF) = (Exhausted, init) \<and>
   dataReceived ascii_strict init (''-OK'' @ SYM_CRLF) = (Raised (ResponseError ''OK''), init)"
proof -
  have h: "multi_bulk_stack init = []" "request_queue init = []"
    by (simp_all add: init_def)
  have g: "buffer init = [] \<and> bulk_length init = None \<and> CHR 0x0D \<notin> set ''OK'' \<and>
      decode ascii_strict ''OK'' = Some ''OK''"
    by (simp add: init_def ascii_strict_def is_ascii_def)
  show ?thesis
    using h g unrequested_reply_dropped[OF h, of "RText ''OK''" "''ERR no''" "''OK''" ascii_strict "''OK''"]
    by (simp add: error_reply_def)
qed

section \<open>The completion path\<close>

text \<open>How a pass of the loop hands each kind of completed value to \<^verbatim>\<open>responseReceived\<close>.\<close>

lemma integerReceived_eq: "integerReceived st d = responseReceived st (integer_value d)"
  by (simp add: integerReceived_def responseReceived.simps)

lemma body_completes:
  assumes "bulk_length st = None" and "buffer st = (c # txt) @ SYM_CRLF @ rest"
    and "split_crlf (c # txt) = None" and "decode cs txt = Some t"
  shows "c = CHR ''+'' \<Longrightarrow>
           dataReceived_body cs st = continue (responseReceived (st\<lparr>buffer := rest\<rparr>) (single_line_value t))"
    and "c = CHR '':'' \<Longrightarrow>
           dataReceived_body cs st = continue (responseReceived (st\<lparr>buffer := rest\<rparr>) (integer_value t))"
    and "c = CHR ''$'' \<Longrightarrow> py_int t = Some (- 1) \<Longrightarrow>
           dataReceived_body cs st = continue (responseReceived (st\<lparr>buffer := rest\<rparr>) RNone)"
    and "c = CHR ''*'' \<Longrightarrow> py_int t = Some 0 \<Longrightarrow>
           dataReceived_body cs st = continue (responseReceived (st\<lparr>buffer := rest\<rparr>) (RList []))"
    and "c = CHR ''*'' \<Longrightarrow> py_int t = Some (- 1) \<Longrightarrow>
           dataReceived_body cs st = return (responseReceived (st\<lparr>buffer := rest\<rparr>) RNone)"
proof -
  note body = body_line[OF assms]
  have same: "st\<lparr>buffer := rest, bulk_length := None\<rparr> = st\<lparr>buffer := rest\<rparr>"
    using assms(1) by simp
  have pop: "multiBulkDataReceived (st\<lparr>buffer := rest, multi_bulk_stack := (n, xs) # multi_bulk_stack st\<rparr>)
      = responseReceived (st\<lparr>buffer := rest\<rparr>) (frame_value xs)" for n xs
  proof (cases "multi_bulk_stack st = []")
    case True
    have eq: "st\<lparr>buffer := rest, multi_bulk_stack := []\<rparr> = st\<lparr>buffer := rest\<rparr>"
      using True by simp
    have "multiBulkDataReceived (st\<lparr>buffer := rest, multi_bulk_stack := (n, xs) # multi_bulk_stack st\<rparr>)
        = responseReceived (st\<lparr>buffer := rest, multi_bulk_stack := []\<rparr>) (frame_value xs)"
      using True by (simp add: multiBulkDataReceived.simps handleCompleteMultiBulkData.simps)
    then show ?thesis unfolding eq .
  next
    case False
    have eq: "st\<lparr>buffer := rest, multi_bulk_stack := multi_bulk_stack st\<rparr> = st\<lparr>buffer := rest\<rparr>"
      by simp
    have "multiBulkDataReceived (st\<lparr>buffer := rest, multi_bulk_stack := (n, xs) # multi_bulk_stack st\<rparr>)
        = handleMultiBulkElement (st\<lparr>buffer := rest, multi_bulk_stack := multi_bulk_stack st\<rparr>) (frame_value xs)"
      using False by (simp add: multiBulkDataReceived.simps)
    then show ?thesis
      unfolding eq using False by (simp add: responseReceived.simps[of "st\<lparr>buffer := rest\<rparr>"])
  qed
  show "c = CHR ''+'' \<Longrightarrow>
           dataReceived_body cs st = continue (responseReceived (st\<lparr>buffer := rest\<rparr>) (single_line_value t))"
    using body by (simp add: ERROR_def INTEGER_def SINGLE_LINE_def singleLineReceived_def)
  show "c = CHR '':'' \<Longrightarrow>
           dataReceived_body cs st = continue (responseReceived (st\<lparr>buffer := rest\<rparr>) (integer_value t))"
    using body integerReceived_eq by (simp add: ERROR_def INTEGER_def)
  show "c = CHR ''$'' \<Longrightarrow> py_int t = Some (- 1) \<Longrightarrow>
           dataReceived_body cs st = continue (responseReceived (st\<lparr>buffer := rest\<rparr>) RNone)"
    using body same
    by (simp add: ERROR_def INTEGER_def SINGLE_LINE_def BULK_def bulkDataReceived_def)
  show "c = CHR ''*'' \<Longrightarrow> py_int t = Some 0 \<Longrightarrow>
           dataReceived_body cs st = continue (responseReceived (st\<lparr>buffer := rest\<rparr>) (RList []))"
    using body pop[of 0 "Some []"]
    by (simp add: ERROR_def INTEGER_def SINGLE_LINE_def BULK_def MULTI_BULK_def frame_value_def)
  show "c = CHR ''*'' \<Longrightarrow> py_int t = Some (- 1) \<Longrightarrow>
           dataReceived_body cs st = return (responseReceived (st\<lparr>buffer := rest\<rparr>) RNone)"
    using body pop[of "- 1" None]
    by (simp add: ERROR_def INTEGER_def SINGLE_LINE_def BULK_def MULTI_BULK_def frame_value_def)
qed

lemma body_completes_bulk:
  assumes "bulk_length st = Some n" and "0 \<le> n" and "n + 2 \<le> int (length (buffer st))"
    and "decode cs (take (nat n) (buffer st)) = Some t"
  shows "dataReceived_body cs st =
     continue (responseReceived (st\<lparr>buffer := drop (nat n + 2) (buffer st), bulk_length := None\<rparr>) (RText t))"
proof -
  have "py_take n (buffer st) = take (nat n) (buffer st)"
    "py_drop (n + 2) (buffer st) = drop (nat n + 2) (buffer st)"
    using assms(2) by (simp_all add: py_take_def py_drop_def py_index_def nat_add_distrib)
  then show ?thesis
    using assms by (simp add: dataReceived_body_def bulkDataReceived_def)
qed

text \<open>
  The four kinds other than the error. Every completed element of the kinds simple string,
  integer, bulk and array goes through \<^verbatim>\<open>responseReceived\<close>: with an array frame open it
  becomes the next element of the innermost frame, and a frame that this fills is completed in
  turn, one level up; with no frame open it is called back on the oldest queued request. An
  error line with no frame open is an errback on the oldest queued request. The loop of
  \<^verbatim>\<open>dataReceived\<close> hands a status line, an integer line, a null bulk, an empty array and a
  bulk payload to \<^verbatim>\<open>responseReceived\<close>.
\<close>

lemma completion_path:
  "singleLineReceived st data = responseReceived st (single_line_value data)
   \<and> integerReceived st data = responseReceived st (integer_value data)
   \<and> bulkDataReceived st v = responseReceived (st\<lparr>bulk_length := None\<rparr>) v
   \<and> (multi_bulk_stack st = (n, xs) # fs \<longrightarrow>
        multiBulkDataReceived st = responseReceived (st\<lparr>multi_bulk_stack := fs\<rparr>) (frame_value xs))
   \<and> (multi_bulk_stack st = (n, Some rs) # fs \<and> n \<noteq> 1 \<longrightarrow>
        responseReceived st v = Ok (st\<lparr>multi_bulk_stack := (n - 1, Some (rs @ [v])) # fs\<rparr>))
   \<and> (multi_bulk_stack st = (1, Some rs) # fs \<longrightarrow>
        responseReceived st v = responseReceived (st\<lparr>multi_bulk_stack := fs\<rparr>) (RList (rs @ [v])))
   \<and> (multi_bulk_stack st = [] \<and> request_queue st = d # q \<longrightarrow>
        responseReceived st v = Ok (st\<lparr>request_queue := q, fired := fired st @ [(d, Callback v)]\<rparr>)
      \<and> errorReceived st data =
          Ok (st\<lparr>request_queue := q, fired := fired st @ [(d, Errback (error_reply data))]\<rparr>))
   \<and> (bulk_length st = None \<and> buffer st = (c # payload) @ SYM_CRLF @ rest \<and>
      split_crlf (c # payload) = None \<and> decode cs payload = Some t \<longrightarrow>
        (c = CHR ''+'' \<longrightarrow> dataReceived_body cs st =
           continue (responseReceived (st\<lparr>buffer := rest\<rparr>) (single_line_value t)))
      \<and> (c = CHR '':'' \<longrightarrow> dataReceived_body cs st =
           continue (responseReceived (st\<lparr>buffer := rest\<rparr>) (integer_value t)))
      \<and> (c = CHR ''$'' \<and> py_int t = Some (- 1) \<longrightarrow> dataReceived_body cs st =
           continue (responseReceived (st\<lparr>buffer := rest\<rparr>) RNone))
      \<and> (c = CHR ''*'' \<and> py_int t = Some 0 \<longrightarrow> dataReceived_body cs st =
           continue (responseReceived (st\<lparr>buffer := rest\<rparr>) (RList []))))
   \<and> (bulk_length st = Some k \<and> 0 \<le> k \<and> k + 2 \<le> int (length (buffer st)) \<and>
      decode cs (take (nat k) (buffer st)) = Some t \<longrightarrow>
        dataReceived_body cs st =
          continue (responseReceived
            (st\<lparr>buffer := drop (nat k + 2) (buffer st), bulk_length := None\<rparr>) (RText t)))"
proof -
  have a: "singleLineReceived st data = responseReceived st (single_line_value data)"
    by (simp add: singleLineReceived_def)
  have b: "integerReceived st data = responseReceived st (integer_value data)"
    by (simp add: integerReceived_def responseReceived.simps)
  have c: "bulkDataReceived st v = responseReceived (st\<lparr>bulk_length := None\<rparr>) v"
    by (simp add: bulkDataReceived_def)
  have d: "multiBulkDataReceived st = responseReceived (st\<lparr>multi_bulk_stack := fs\<rparr>) (frame_value xs)"
    if "multi_bulk_stack st = (n, xs) # fs" for st :: state and n xs fs
  proof (cases "fs = []")
    case True
    then show ?thesis using that
      by (simp add: multiBulkDataReceived.simps handleCompleteMultiBulkData.simps)
  next
    case False
    then show ?thesis using that
      by (simp add: multiBulkDataReceived.simps responseReceived.simps[of "st\<lparr>multi_bulk_stack := fs\<rparr>"])
  qed
  have e: "responseReceived st v = Ok (st\<lparr>multi_bulk_stack := (n - 1, Some (rs @ [v])) # fs\<rparr>)"
    if "multi_bulk_stack st = (n, Some rs) # fs" "n \<noteq> 1"
    using that by (simp add: responseReceived.simps handleMultiBulkElement.simps)
  have f: "responseReceived st v = responseReceived (st\<lparr>multi_bulk_stack := fs\<rparr>) (RList (rs @ [v]))"
    if "multi_bulk_stack st = (1, Some rs) # fs"
  proof -
    have "responseReceived st v =
        multiBulkDataReceived (st\<lparr>multi_bulk_stack := (0, Some (rs @ [v])) # fs\<rparr>)"
      using that by (simp add: responseReceived.simps[of st] handleMultiBulkElement.simps)
    also have "\<dots> = responseReceived (st\<lparr>multi_bulk_stack := fs\<rparr>) (RList (rs @ [v]))"
      using d[of "st\<lparr>multi_bulk_stack := (0, Some (rs @ [v])) # fs\<rparr>" 0 "Some (rs @ [v])" fs]
      by (simp add: frame_value_def)
    finally show ?thesis .
  qed
  have g: "responseReceived st v = Ok (st\<lparr>request_queue := q, fired := fired st @ [(d, Callback v)]\<rparr>)"
    "errorReceived st data =
          Ok (st\<lparr>request_queue := q, fired := fired st @ [(d, Errback (error_reply data))]\<rparr>)"
    if "multi_bulk_stack st = []" "request_queue st = d # q"
    using that by (simp_all add: responseReceived.simps errorReceived_def)
  have d': "multi_bulk_stack st = (n, xs) # fs \<longrightarrow>
        multiBulkDataReceived st = responseReceived (st\<lparr>multi_bulk_stack := fs\<rparr>) (frame_value xs)"
    using d by blast
  have e': "multi_bulk_stack st = (n, Some rs) # fs \<and> n \<noteq> 1 \<longrightarrow>
        responseReceived st v = Ok (st\<lparr>multi_bulk_stack := (n - 1, Some (rs @ [v])) # fs\<rparr>)"
    using e by blast
  have f': "multi_bulk_stack st = (1, Some rs) # fs \<longrightarrow>
        responseReceived st v = responseReceived (st\<lparr>multi_bulk_stack := fs\<rparr>) (RList (rs @ [v]))"
    using f by blast
  have g': "multi_bulk_stack st = [] \<and> request_queue st = d # q \<longrightarrow>
        responseReceived st v = Ok (st\<lparr>request_queue := q, fired := fired st @ [(d, Callback v)]\<rparr>)
      \<and> errorReceived st data =
          Ok (st\<lparr>request_queue := q, fired := fired st @ [(d, Errback (error_reply data))]\<rparr>)"
    using g by blast
  have h: "bulk_length st = None \<and> buffer st = (c # payload) @ SYM_CRLF @ rest \<and>
      split_crlf (c # payload) = None \<and> decode cs payload = Some t \<longrightarrow>
        (c = CHR ''+'' \<longrightarrow> dataReceived_body cs st =
           continue (responseReceived (st\<lparr>buffer := rest\<rparr>) (single_line_value t)))
      \<and> (c = CHR '':'' \<longrightarrow> dataReceived_body cs st =
           continue (responseReceived (st\<lparr>buffer := rest\<rparr>) (integer_value t)))
      \<and> (c = CHR ''$'' \<and> py_int t = Some (- 1) \<longrightarrow> dataReceived_body cs st =
           continue (responseReceived (st\<lparr>buffer := rest\<rparr>) RNone))
      \<and> (c = CHR ''*'' \<and> py_int t = Some 0 \<longrightarrow> dataReceived_body cs st =
           continue (responseReceived (st\<lparr>buffer := rest\<rparr>) (RList [])))"
    using body_completes(1-4)[of st c payload rest cs t] by blast
  have i: "bulk_length st = Some k \<and> 0 \<le> k \<and> k + 2 \<le> int (length (buffer st)) \<and>
      decode cs (take (nat k) (buffer st)) = Some t \<longrightarrow>
        dataReceived_body cs st =
          continue (responseReceived
            (st\<lparr>buffer := drop (nat k + 2) (buffer st), bulk_length := None\<rparr>) (RText t))"
    using body_completes_bulk[of st k cs t] by blast
  show ?thesis
    using a b c d' e' f' g' h i by (intro conjI) assumption+
qed

lemma completion_path_example:
  "multi_bulk_stack nested = (1, Some [RInt 1]) # [(2, Some [RNone])]
   \<and> multi_bulk_stack (nested\<lparr>multi_bulk_stack := [(2, Some [RNone])]\<rparr>) = (2, Some [RNone]) # [] \<and> (2::int) \<noteq> 1
   \<and> multi_bulk_stack init = [] \<and> request_queue (init\<lparr>request_queue := [0]\<rparr>) = 0 # []
   \<and> singleLineReceived nested ''x'' =
        Ok (nested\<lparr>multi_bulk_stack := [(1, Some [RNone, RList [RInt 1, RText ''x'']])]\<rparr>)
   \<and> responseReceived (init\<lparr>request_queue := [0]\<rparr>) (RInt 7) =
        Ok (init\<lparr>request_queue := [], fired := [(0, Callback (RInt 7))]\<rparr>)
   \<and> bulk_length status_buffered = None \<and> buffer status_buffered = (CHR ''+'' # ''OK'') @ SYM_CRLF @ []
   \<and> split_crlf (CHR ''+'' # ''OK'') = None \<and> decode ascii_strict ''OK'' = Some ''OK''
   \<and> dataReceived_body ascii_strict status_buffered =
        Continue (status_buffered\<lparr>buffer := [], request_queue := [],
          fired := [(0, Callback (RText ''OK''))]\<rparr>)
   \<and> bulk_length bulk_buffered = Some 2 \<and> (0::int) \<le> 2 \<and> 2 + 2 \<le> int (length (buffer bulk_buffered))
   \<and> decode ascii_strict (take (nat 2) (buffer bulk_buffered)) = Some ''ab''
   \<and> dataReceived_body ascii_strict bulk_buffered =
        Continue (bulk_buffered\<lparr>buffer := [], bulk_length := None, request_queue := [],
          fired := [(0, Callback (RText ''ab''))]\<rparr>)"
proof -
  have h1: "multi_bulk_stack nested = (1, Some [RInt 1]) # [(2, Some [RNone])]"
    by (simp add: nested_def init_def)
  have h2: "multi_bulk_stack (nested\<lparr>multi_bulk_stack := [(2, Some [RNone])]\<rparr>) = (2, Some [RNone]) # [] \<and> (2::int) \<noteq> 1"
    by simp
  have h3: "multi_bulk_stack (init\<lparr>request_queue := [0]\<rparr>) = [] \<and> request_queue (init\<lparr>request_queue := [0]\<rparr>) = 0 # []"
    by (simp add: init_def)
  have h4: "bulk_length status_buffered = None \<and> buffer status_buffered = (CHR ''+'' # ''OK'') @ SYM_CRLF @ []
      \<and> split_crlf (CHR ''+'' # ''OK'') = None \<and> decode ascii_strict ''OK'' = Some ''OK''"
    by (simp add: status_buffered_def init_def ascii_strict_def is_ascii_def)
  have h5: "bulk_length bulk_buffered = Some 2 \<and> (0::int) \<le> 2 \<and> 2 + 2 \<le> int (length (buffer bulk_buffered))
      \<and> decode ascii_strict (take (nat 2) (buffer bulk_buffered)) = Some ''ab''"
    by (simp add: bulk_buffered_def init_def ascii_strict_def is_ascii_def SYM_CRLF_def)
  have r4: "responseReceived (status_buffered\<lparr>buffer := []\<rparr>) (single_line_value ''OK'') =
      Ok (status_buffered\<lparr>buffer := [], request_queue := [], fired := [(0, Callback (RText ''OK''))]\<rparr>)"
    by (simp add: status_buffered_def init_def responseReceived.simps single_line_value_def)
  have r5: "responseReceived (bulk_buffered\<lparr>buffer := drop 4 (buffer bulk_buffered),
        bulk_length := None\<rparr>) (RText ''ab'') =
      Ok (bulk_buffered\<lparr>buffer := [], bulk_length := None, request_queue := [],
          fired := [(0, Callback (RText ''ab''))]\<rparr>)"
    by (simp add: bulk_buffered_def init_def responseReceived.simps SYM_CRLF_def)
  have w4: "dataReceived_body ascii_strict status_buffered =
        Continue (status_buffered\<lparr>buffer := [], request_queue := [],
          fired := [(0, Callback (RText ''OK''))]\<rparr>)"
    using h4 completion_path[where st = status_buffered and c = "CHR ''+''" and payload = "''OK''"
        and rest = "[]" and cs = ascii_strict and t = "''OK''"]
    by (simp add: r4 continue_def)
  have w5: "dataReceived_body ascii_strict bulk_buffered =
        Continue (bulk_buffered\<lparr>buffer := [], bulk_length := None, request_queue := [],
          fired := [(0, Callback (RText ''ab''))]\<rparr>)"
    using h5 completion_path[where st = bulk_buffered and k = 2 and cs = ascii_strict and t = "''ab''"]
    by (simp add: r5 continue_def)
  show ?thesis
    using h1 h2 h3 h4 h5 w4 w5
      completion_path[where st = nested and data = "''x''" and rs = "[RInt 1]"
        and fs = "[(2, Some [RNone])]" and v = "RText ''x''"]
      completion_path[where st = "nested\<lparr>multi_bulk_stack := [(2, Some [RNone])]\<rparr>" and n = 2
        and rs = "[RNone]" and fs = "[]" and v = "RList [RInt 1, RText ''x'']"]
      completion_path[where st = "init\<lparr>request_queue := [0]\<rparr>" and d = 0 and q = "[]"
        and v = "RInt 7"]
    by (simp add: single_line_value_def init_def)
qed

text \<open>
  Claim C3 at a concrete stream. Two requests are pending and the server answers the first with
  an array of three elements whose second element is an error. \<^verbatim>\<open>errorReceived\<close> does not
  look at the frame stack, as \<^verbatim>\<open>integerReceived\<close> and \<^verbatim>\<open>responseReceived\<close> do: the error is
  not appended to the open frame but is an errback on the first request, the frame stays one
  element short, and the status reply that belongs to the second request is taken as the
  third element of the array, which is then called back on the second request. With a frame of
  two elements open and only an error line fed, the frame stays empty and still awaits two
  elements; an integer line in the same place is appended.
\<close>

theorem error_line_skips_open_frame:
  "fired (run ascii_strict two_pending
       [Data (''*3'' @ SYM_CRLF @ ''+OK'' @ SYM_CRLF @ ''-WRONGTYPE x'' @ SYM_CRLF @
              ''$1'' @ SYM_CRLF @ ''v'' @ SYM_CRLF @ ''+PONG'' @ SYM_CRLF)]) =
     [(0, Errback (ResponseError ''WRONGTYPE x'')),
      (1, Callback (RList [RText ''OK'', RText ''v'', RText ''PONG'']))]
   \<and> multi_bulk_stack (run ascii_strict two_pending [Data (''*2'' @ SYM_CRLF @ ''-ERR x'' @ SYM_CRLF)]) =
     [(2, Some [])]
   \<and> fired (run ascii_strict two_pending [Data (''*2'' @ SYM_CRLF @ ''-ERR x'' @ SYM_CRLF)]) =
     [(0, Errback (ResponseError ''x''))]
   \<and> multi_bulk_stack (run ascii_strict two_pending [Data (''*2'' @ SYM_CRLF @ '':5'' @ SYM_CRLF)]) =
     [(1, Some [RInt 5])]
   \<and> fired (run ascii_strict two_pending [Data (''*2'' @ SYM_CRLF @ '':5'' @ SYM_CRLF)]) = []"
  by code_simp

section \<open>Requests and replies in order\<close>

lemma fifo_served:
  "fifo_inv st \<Longrightarrow> served st st' \<Longrightarrow> kept st st' \<Longrightarrow> fifo_inv st'"
  by (auto simp: fifo_inv_def served_def kept_def)

lemma fifo_deliver: "fifo_inv st \<Longrightarrow> fifo_inv (deliver cs st ev)"
proof (cases ev)
  case (Send command args)
  assume "fifo_inv st"
  then show ?thesis using Send
    by (auto simp: send_def send_parts_def getResponse_def fifo_inv_def split: sum.splits)
next
  case (Data data)
  assume "fifo_inv st"
  then show ?thesis using Data
    by (simp add: fifo_served[OF _ dataReceived_served dataReceived_kept])
next
  case (Lost reason)
  assume "fifo_inv st"
  then show ?thesis using Lost
    by (simp add: connectionLost_def failRequests_def failRequests_loop_map fifo_inv_def comp_def)
next
  case Timeout
  assume "fifo_inv st"
  then show ?thesis using Timeout
    by (simp add: timeoutConnection_def failRequests_def failRequests_loop_map fifo_inv_def comp_def)
qed

lemma fifo_run: "fifo_inv st \<Longrightarrow> fifo_inv (run cs st evs)"
  unfolding run_def by (induction evs arbitrary: st) (simp_all add: fifo_deliver)

lemma fifo_init: "fifo_inv init"
  by (simp add: fifo_inv_def init_def)

lemma status_lines_loop:
  assumes "list_all (plain_text cs) ts"
    and "bulk_length st = None" and "multi_bulk_stack st = []"
    and "buffer st = concat (map status_line ts)"
    and "request_queue st = ds @ q" and "length ds = length ts"
  shows "dataReceived_loop cs st =
     (Exhausted, st\<lparr>buffer := [], request_queue := q,
        fired := fired st @ zip ds (map (\<lambda>t. Callback (single_line_value t)) ts)\<rparr>)"
  using assms
proof (induction ts arbitrary: st ds)
  case Nil
  then show ?case by (simp add: loop_empty)
next
  case (Cons t ts)
  obtain d ds' where ds: "ds = d # ds'" using Cons.prems(6) by (cases ds) auto
  have pt: "CHR 0x0D \<notin> set t" "decode cs t = Some t"
    using Cons.prems(1) by (simp_all add: plain_text_def)
  let ?rest = "concat (map status_line ts)"
  let ?st' = "st\<lparr>buffer := ?rest, request_queue := ds' @ q,
                  fired := fired st @ [(d, Callback (single_line_value t))]\<rparr>"
  have "status_line t = (CHR ''+'' # t) @ SYM_CRLF"
    by (simp add: status_line_def)
  then have buf: "buffer st = (CHR ''+'' # t) @ SYM_CRLF @ ?rest"
    using Cons.prems(4) by simp
  have "dataReceived_body cs st = continue (singleLineReceived (st\<lparr>buffer := ?rest\<rparr>) t)"
    using body_line[OF Cons.prems(2) buf no_cr_split pt(2)] pt(1)
    by (simp add: ERROR_def INTEGER_def SINGLE_LINE_def)
  then have body: "dataReceived_body cs st = Continue ?st'"
    using Cons.prems(3,5) ds
    by (simp add: singleLineReceived_def responseReceived.simps continue_def)
  have ne: "buffer st \<noteq> []" using buf by simp
  have "dataReceived_loop cs ?st' =
     (Exhausted, ?st'\<lparr>buffer := [], request_queue := q,
        fired := fired ?st' @ zip ds' (map (\<lambda>t. Callback (single_line_value t)) ts)\<rparr>)"
    using Cons.prems ds by (intro Cons.IH) simp_all
  then show ?case
    using loop_continue[OF ne body] ds by simp
qed

lemma sends_run:
  assumes "\<not> disconnected st" and "list_all (packs cs) cmds"
  shows "request_queue (run cs st (sends cmds)) =
           request_queue st @ [next_deferred st ..< next_deferred st + length cmds]
       \<and> next_deferred (run cs st (sends cmds)) = next_deferred st + length cmds
       \<and> fired (run cs st (sends cmds)) = fired st
       \<and> buffer (run cs st (sends cmds)) = buffer st
       \<and> bulk_length (run cs st (sends cmds)) = bulk_length st
       \<and> multi_bulk_stack (run cs st (sends cmds)) = multi_bulk_stack st
       \<and> disconnected (run cs st (sends cmds)) = disconnected st"
  using assms
proof (induction cmds arbitrary: st)
  case Nil
  then show ?case by (simp add: run_def sends_def)
next
  case (Cons cmd cmds)
  obtain command args where cmd: "cmd = (command, args)" by (cases cmd)
  obtain parts where p: "pack cs command args = Inr parts"
    using Cons.prems(2) cmd by (cases "pack cs command args") (simp_all add: packs_def)
  let ?st1 = "deliver cs st (Send command args)"
  have st1: "?st1 = st\<lparr>transport := transport st @ parts,
      request_queue := request_queue st @ [next_deferred st],
      next_deferred := Suc (next_deferred st)\<rparr>"
    using Cons.prems(1) p by (simp add: send_def send_parts_def getResponse_def)
  have run: "run cs st (sends (cmd # cmds)) = run cs ?st1 (sends cmds)"
    by (simp add: run_def sends_def cmd del: deliver.simps)
  have "\<not> disconnected ?st1" using Cons.prems(1) by (simp add: st1 del: deliver.simps)
  moreover have "list_all (packs cs) cmds" using Cons.prems(2) by simp
  moreover have "[next_deferred st ..< next_deferred st + length (cmd # cmds)] =
      next_deferred st # [Suc (next_deferred st) ..< Suc (next_deferred st) + length cmds]"
    by (simp add: upt_rec)
  ultimately show ?case
    using Cons.IH[of ?st1] unfolding run by (simp add: st1 del: deliver.simps upt_Suc)
qed

text \<open>
  What the queue does keep. From \<^verbatim>\<open>__init__\<close> on, after any sequence of \<^verbatim>\<open>send\<close>,
  \<^verbatim>\<open>dataReceived\<close>, \<^verbatim>\<open>connectionLost\<close> and \<^verbatim>\<open>timeoutConnection\<close> calls, the requests fired so
  far followed by the requests still queued are exactly the requests created, in creation
  order: requests fire oldest first, none is skipped and none fires twice. And N pipelined
  sends followed by one chunk that carries N status replies fire the N requests in send order,
  each with its own reply. This says nothing about which reply a request gets from a stream
  of other kinds of replies.
\<close>

lemma fifo_correlation:
  "fifo_inv (run cs init evs)
   \<and> (list_all (packs cs) cmds \<and> list_all (plain_text cs) ts \<and> length ts = length cmds \<longrightarrow>
        (let st = run cs init (sends cmds @ [Data (concat (map status_line ts))])
         in fired st = zip [0 ..< length cmds] (map (\<lambda>t. Callback (single_line_value t)) ts)
            \<and> request_queue st = []))"
proof -
  have a: "fifo_inv (run cs init evs)"
    using fifo_init by (rule fifo_run)
  have b: "fired (run cs init (sends cmds @ [Data (concat (map status_line ts))])) =
            zip [0 ..< length cmds] (map (\<lambda>t. Callback (single_line_value t)) ts)
         \<and> request_queue (run cs init (sends cmds @ [Data (concat (map status_line ts))])) = []"
    if h: "list_all (packs cs) cmds" "list_all (plain_text cs) ts" "length ts = length cmds"
  proof -
    let ?s1 = "run cs init (sends cmds)"
    have s1: "request_queue ?s1 = [0 ..< length cmds]" "fired ?s1 = []" "buffer ?s1 = []"
      "bulk_length ?s1 = None" "multi_bulk_stack ?s1 = []"
      using sends_run[of init cs cmds] h(1) by (simp_all add: init_def)
    let ?s2 = "?s1\<lparr>buffer := buffer ?s1 @ concat (map status_line ts)\<rparr>"
    have "dataReceived_loop cs ?s2 =
       (Exhausted, ?s2\<lparr>buffer := [], request_queue := [],
          fired := fired ?s2 @ zip [0 ..< length cmds] (map (\<lambda>t. Callback (single_line_value t)) ts)\<rparr>)"
      using s1 h by (intro status_lines_loop) simp_all
    then show ?thesis
      using s1 by (simp add: run_def dataReceived_def)
  qed
  show ?thesis using a b by (simp add: Let_def)
qed

lemma fifo_correlation_example:
  "list_all (packs ascii_strict) [(''GET'', [Text ''a'']), (''PING'', [])]
   \<and> list_all (plain_text ascii_strict) [''hello'', ''PONG'']
   \<and> length [''hello'', ''PONG''] = length [(''GET'', [Text ''a'']), (''PING'', [])]
   \<and> fired (run ascii_strict init
        (sends [(''GET'', [Text ''a'']), (''PING'', [])] @
         [Data (concat (map status_line [''hello'', ''PONG'']))])) =
       [(0, Callback (RText ''hello'')), (1, Callback (RText ''PONG''))]
   \<and> fifo_inv (run ascii_strict init
        [Send ''GET'' [Text ''a''], Data (''*-1'' @ SYM_CRLF @ ''+OK''), Send ''PING'' [], Data SYM_CRLF])"
proof -
  have h: "list_all (packs ascii_strict) [(''GET'', [Text ''a'']), (''PING'', [])]
     \<and> list_all (plain_text ascii_strict) [''hello'', ''PONG'']
     \<and> length [''hello'', ''PONG''] = length [(''GET'', [Text ''a'']), (''PING'', [])]"
    by code_simp
  show ?thesis
    using h
      fifo_correlation[of ascii_strict
        "[Send ''GET'' [Text ''a''], Data (''*-1'' @ SYM_CRLF @ ''+OK''), Send ''PING'' [], Data SYM_CRLF]"
        "[(''GET'', [Text ''a'']), (''PING'', [])]" "[''hello'', ''PONG'']"]
    by (simp add: Let_def single_line_value_def)
qed

text \<open>
  Claim C4 at a concrete input. Two commands are sent one after the other, and the two replies,
  a null array and a status reply, arrive in one chunk. \<^verbatim>\<open>dataReceived\<close> returns after the null
  array (line 163): the first request is called back, the second stays queued and its reply
  stays in the buffer, so one reply is delivered for two requests created. When the next
  chunk arrives, here an empty one, the second request is called back.
\<close>

theorem pipelined_reply_left_in_buffer:
  "fired (run ascii_strict init
       [Send ''BLPOP'' [Text ''k'', Integer 1], Send ''PING'' [],
        Data (''*-1'' @ SYM_CRLF @ ''+PONG'' @ SYM_CRLF)]) = [(0, Callback RNone)]
   \<and> request_queue (run ascii_strict init
       [Send ''BLPOP'' [Text ''k'', Integer 1], Send ''PING'' [],
        Data (''*-1'' @ SYM_CRLF @ ''+PONG'' @ SYM_CRLF)]) = [1]
   \<and> buffer (run ascii_strict init
       [Send ''BLPOP'' [Text ''k'', Integer 1], Send ''PING'' [],
        Data (''*-1'' @ SYM_CRLF @ ''+PONG'' @ SYM_CRLF)]) = ''+PONG'' @ SYM_CRLF
   \<and> fired (run ascii_strict init
       [Send ''BLPOP'' [Text ''k'', Integer 1], Send ''PING'' [],
        Data (''*-1'' @ SYM_CRLF @ ''+PONG'' @ SYM_CRLF), Data []]) =
     [(0, Callback RNone), (1, Callback (RText ''PONG''))]"
  by code_simp

section \<open>Losing the connection\<close>

lemma closed_deliver:
  assumes "disconnected st" and "request_queue st = []"
  shows "disconnected (deliver cs st ev) \<and> request_queue (deliver cs st ev) = []"
proof (cases ev)
  case (Send command args)
  then show ?thesis using assms
    by (auto simp: send_def send_parts_def getResponse_def split: sum.splits)
next
  case (Data data)
  then show ?thesis
    using assms dataReceived_kept[of st cs data] served_empty[OF dataReceived_served[of st cs data]]
    by (simp add: kept_def)
next
  case (Lost reason)
  then show ?thesis by (simp add: connectionLost_def failRequests_def)
next
  case Timeout
  then show ?thesis using assms by (simp add: timeoutConnection_def failRequests_def)
qed

lemma closed_run:
  "disconnected st \<Longrightarrow> request_queue st = [] \<Longrightarrow>
   disconnected (run cs st evs) \<and> request_queue (run cs st evs) = []"
  unfolding run_def
proof (induction evs arbitrary: st)
  case Nil
  then show ?case by simp
next
  case (Cons ev evs)
  then show ?case using closed_deliver[of st cs ev] by (simp del: deliver.simps)
qed

text \<open>
  Claim C8. \<^verbatim>\<open>connectionLost\<close> fires every queued request, oldest first, with an errback that
  carries the reason of the loss, and leaves the queue empty. After it, whatever calls follow,
  a \<^verbatim>\<open>send\<close> whose arguments the encoder accepts returns a future that has already failed with
  \<^verbatim>\<open>RuntimeError("Not connected")\<close> and the queue stays empty; a \<^verbatim>\<open>send\<close> whose arguments the
  encoder rejects raises the encoder's exception, as it does on an open connection.
\<close>

theorem connection_lost_fails_requests:
  "fired (connectionLost st reason) = fired st @ map (\<lambda>d. (d, Errback reason)) (request_queue st)
   \<and> request_queue (connectionLost st reason) = []
   \<and> (case send cs (run cs (connectionLost st reason) evs) command args of
         Inl e \<Rightarrow> pack cs command args = Inl e
       | Inr (future, st') \<Rightarrow>
           future = Failed (RuntimeError ''Not connected'') \<and> request_queue st' = [] \<and>
           \<not> isl (pack cs command args))"
proof -
  have a: "fired (connectionLost st reason) = fired st @ map (\<lambda>d. (d, Errback reason)) (request_queue st)"
    by (simp add: connectionLost_def failRequests_def failRequests_loop_map)
  have b: "request_queue (connectionLost st reason) = []" "disconnected (connectionLost st reason)"
    by (simp_all add: connectionLost_def failRequests_def)
  let ?st = "run cs (connectionLost st reason) evs"
  have c: "disconnected ?st" "request_queue ?st = []"
    using closed_run[OF b(2) b(1), of cs evs] by simp_all
  have "case send cs ?st command args of
         Inl e \<Rightarrow> pack cs command args = Inl e
       | Inr (future, st') \<Rightarrow>
           future = Failed (RuntimeError ''Not connected'') \<and> request_queue st' = [] \<and>
           \<not> isl (pack cs command args)"
    using c by (auto simp: send_def send_parts_def getResponse_def split: sum.splits)
  then show ?thesis using a b(1) by simp
qed

theorem connection_lost_fails_requests_witness:
  "fired (connectionLost three_pending (TransportLost ''Connection was closed cleanly.'')) =
     [(0, Errback (TransportLost ''Connection was closed cleanly.'')),
      (1, Errback (TransportLost ''Connection was closed cleanly.'')),
      (2, Errback (TransportLost ''Connection was closed cleanly.''))]
   \<and> request_queue (connectionLost three_pending (TransportLost ''Connection was closed cleanly.'')) = []
   \<and> map_sum id fst (send ascii_strict
         (run ascii_strict (connectionLost three_pending (TransportLost ''Connection was closed cleanly.''))
            [Data (''+OK'' @ SYM_CRLF), Send ''PING'' []])
         ''GET'' [Text ''a'']) = Inr (Failed (RuntimeError ''Not connected''))"
proof -
  have p: "\<not> isl (send ascii_strict
         (run ascii_strict (connectionLost three_pending (TransportLost ''Connection was closed cleanly.''))
            [Data (''+OK'' @ SYM_CRLF), Send ''PING'' []])
         ''GET'' [Text ''a''])"
    by code_simp
  show ?thesis
    using p connection_lost_fails_requests[where st = three_pending
        and reason = "TransportLost ''Connection was closed cleanly.''" and cs = ascii_strict
        and evs = "[Data (''+OK'' @ SYM_CRLF), Send ''PING'' []]" and command = "''GET''"
        and args = "[Text ''a'']"]
    by (auto simp: three_pending_def init_def split: sum.splits)
qed

section \<open>Chunk boundaries\<close>

text \<open>
  No handler reads the buffer, a line is cut at the first terminator, and a bulk payload under
  a length that is not negative is cut from the front: more bytes at the end of the buffer do
  not change a pass that does not wait.
\<close>

lemma more_simps [simp]:
  "bulk_length (more st b) = bulk_length st"
  "multi_bulk_stack (more st b) = multi_bulk_stack st"
  "request_queue (more st b) = request_queue st"
  "fired (more st b) = fired st"
  "buffer (more st b) = buffer st @ b"
  by (simp_all add: more_def)

lemma more_update [simp]:
  "(more st b)\<lparr>multi_bulk_stack := s\<rparr> = more (st\<lparr>multi_bulk_stack := s\<rparr>) b"
  "(more st b)\<lparr>request_queue := q\<rparr> = more (st\<lparr>request_queue := q\<rparr>) b"
  "(more st b)\<lparr>fired := f\<rparr> = more (st\<lparr>fired := f\<rparr>) b"
  "(more st b)\<lparr>bulk_length := n\<rparr> = more (st\<lparr>bulk_length := n\<rparr>) b"
  by (simp_all add: more_def)

lemma completion_more:
  "handleMultiBulkElement (more st b) el = result_more (handleMultiBulkElement st el) b"
  "multiBulkDataReceived (more st b) = result_more (multiBulkDataReceived st) b"
  "handleCompleteMultiBulkData (more st b) r = result_more (handleCompleteMultiBulkData st r) b"
  "responseReceived (more st b) r = result_more (responseReceived st r) b"
proof (induction st el and st and st r and st r
    rule: handleMultiBulkElement_multiBulkDataReceived_handleCompleteMultiBulkData_responseReceived.induct)
  case (1 st element)
  show ?case
  proof (cases "multi_bulk_stack st")
    case Nil
    then show ?thesis by (simp add: handleMultiBulkElement.simps)
  next
    case (Cons f fs)
    obtain n xs where f: "f = (n, xs)" by (cases f)
    show ?thesis
    proof (cases xs)
      case None
      then show ?thesis using Cons f by (simp add: handleMultiBulkElement.simps)
    next
      case (Some rs)
      show ?thesis
      proof (cases "n - 1 = 0")
        case True
        then show ?thesis
          using 1[OF Cons f[symmetric] Some True] Cons f Some
          by (simp add: handleMultiBulkElement.simps)
      next
        case False
        then show ?thesis using Cons f Some by (simp add: handleMultiBulkElement.simps)
      qed
    qed
  qed
next
  case (2 st)
  show ?case
  proof (cases "multi_bulk_stack st")
    case Nil
    then show ?thesis by (simp add: multiBulkDataReceived.simps)
  next
    case (Cons f fs)
    obtain n xs where f: "f = (n, xs)" by (cases f)
    show ?thesis
    proof (cases "fs \<noteq> []")
      case True
      then show ?thesis
        using 2(1)[OF Cons f[symmetric] True] Cons f by (simp add: multiBulkDataReceived.simps)
    next
      case False
      then show ?thesis
        using 2(2)[OF Cons f[symmetric] False] Cons f by (simp add: multiBulkDataReceived.simps)
    qed
  qed
next
  case (3 st reply)
  then show ?case by (simp add: handleCompleteMultiBulkData.simps)
next
  case (4 st reply)
  show ?case
  proof (cases "multi_bulk_stack st \<noteq> []")
    case True
    then show ?thesis using 4 by (simp add: responseReceived.simps)
  next
    case False
    then show ?thesis
      by (cases "request_queue st") (simp_all add: responseReceived.simps)
  qed
qed

lemma handlers_more:
  "errorReceived (more st b) d = result_more (errorReceived st d) b"
  "integerReceived (more st b) d = result_more (integerReceived st d) b"
  "singleLineReceived (more st b) d = result_more (singleLineReceived st d) b"
  "bulkDataReceived (more st b) v = result_more (bulkDataReceived st v) b"
proof -
  show "errorReceived (more st b) d = result_more (errorReceived st d) b"
    by (cases "request_queue st") (simp_all add: errorReceived_def)
  show "integerReceived (more st b) d = result_more (integerReceived st d) b"
    by (simp add: integerReceived_def completion_more)
  show "singleLineReceived (more st b) d = result_more (singleLineReceived st d) b"
    by (simp add: singleLineReceived_def completion_more)
  show "bulkDataReceived (more st b) v = result_more (bulkDataReceived st v) b"
    using completion_more(4)[of "st\<lparr>bulk_length := None\<rparr>" b v]
    by (simp add: bulkDataReceived_def)
qed

lemma continue_more: "continue (result_more r b) = step_more (continue r) b"
  by (cases r) (simp_all add: continue_def)

lemma return_more: "return (result_more r b) = step_more (return r) b"
  by (cases r) (simp_all add: return_def)

lemma more_buffer [simp]: "(more st b)\<lparr>buffer := x\<rparr> = st\<lparr>buffer := x\<rparr>"
  by (simp add: more_def)

lemma more_buffer_upd: "st\<lparr>buffer := x @ b\<rparr> = more (st\<lparr>buffer := x\<rparr>) b"
  by (simp add: more_def)

lemma split_crlf_more:
  assumes "split_crlf buf = Some (line, rest)"
  shows "split_crlf (buf @ b) = Some (line, rest @ b)"
proof -
  have "buf = line @ SYM_CRLF @ rest" using assms by (rule split_crlf_Some)
  moreover have "split_crlf line = None" using assms by (rule split_crlf_line)
  ultimately show ?thesis using split_crlf_append[of line "rest @ b"] by simp
qed

lemma body_line_more:
  assumes "bulk_length st = None" and "split_crlf (buffer st) = Some (line, rest)"
  shows "dataReceived_body cs (more st b) = step_more (dataReceived_body cs st) b"
proof -
  have sp: "split_crlf (buffer (more st b)) = Some (line, rest @ b)"
    using split_crlf_more[OF assms(2)] by simp
  show ?thesis
  proof (cases "length line = 0")
    case True
    then show ?thesis using assms sp
      by (simp add: dataReceived_body_def more_buffer_upd)
  next
    case False
    show ?thesis
    proof (cases "decode cs (drop 1 line)")
      case None
      then show ?thesis using assms sp False
        by (simp add: dataReceived_body_def more_buffer_upd)
    next
      case (Some reply_data)
      show ?thesis
        using assms sp False Some
        by (simp add: dataReceived_body_def Let_def more_buffer_upd handlers_more completion_more
              continue_more return_more split: option.splits)
    qed
  qed
qed

lemma body_bulk_more:
  assumes "bulk_length st = Some n" and "0 \<le> n" and "\<not> int (length (buffer st)) < n + 2"
  shows "dataReceived_body cs (more st b) = step_more (dataReceived_body cs st) b"
proof -
  have t: "py_take n (buffer st @ b) = py_take n (buffer st)"
    using assms(2,3) by (simp add: py_take_def py_index_def)
  have d: "py_drop (n + 2) (buffer st @ b) = py_drop (n + 2) (buffer st) @ b"
    using assms(2,3) by (simp add: py_drop_def py_index_def)
  show ?thesis
    using assms
    by (simp add: dataReceived_body_def t d more_buffer_upd handlers_more continue_more
          split: option.splits)
qed

lemma body_needs_more:
  "dataReceived_body cs st = Stop NeedMore st' \<Longrightarrow>
   st' = st \<and> (case bulk_length st of
                  Some n \<Rightarrow> int (length (buffer st)) < n + 2
                | None \<Rightarrow> split_crlf (buffer st) = None)"
  by (auto simp: dataReceived_body_def Let_def continue_def return_def
           split: option.splits if_splits prod.splits result.splits)

lemma body_more:
  assumes "\<forall>n. bulk_length st = Some n \<longrightarrow> 0 \<le> n"
    and "\<forall>st'. dataReceived_body cs st \<noteq> Stop NeedMore st'"
  shows "dataReceived_body cs (more st b) = step_more (dataReceived_body cs st) b"
proof (cases "bulk_length st")
  case None
  then obtain line rest where "split_crlf (buffer st) = Some (line, rest)"
    using assms(2) by (cases "split_crlf (buffer st)") (auto simp: dataReceived_body_def)
  with None show ?thesis by (rule body_line_more)
next
  case (Some n)
  then have "\<not> int (length (buffer st)) < n + 2"
    using assms(2) by (auto simp: dataReceived_body_def)
  then show ?thesis using Some assms(1) by (intro body_bulk_more) simp_all
qed

lemma more_more: "more (more st a) b = more st (a @ b)"
  by (simp add: more_def)

lemma steady_bulk_length:
  assumes "steady cs st" and "buffer st \<noteq> []" and "bulk_length st = Some n"
  shows "0 \<le> n"
  using assms
proof (cases rule: steady.cases)
  case steady_empty
  then show ?thesis using assms by simp
next
  case (steady_wait st')
  then have "int (length (buffer st)) < n + 2"
    using body_needs_more[of cs st st'] assms(3) by simp
  moreover have "1 \<le> int (length (buffer st))" using assms(2) by (cases "buffer st") simp_all
  ultimately show ?thesis by linarith
next
  case (steady_pass st')
  then show ?thesis using assms by simp
qed

text \<open>
  As long as the one-call run over the whole stream is steady, the stream may be cut anywhere:
  feeding the pieces one after the other ends in the state that the one call ends in, with the
  same requests fired with the same replies.
\<close>

lemma loop_more:
  "steady cs (more st b) \<Longrightarrow>
   dataReceived_loop cs (more st b) = dataReceived_loop cs (more (snd (dataReceived_loop cs st)) b)
   \<and> steady cs (more (snd (dataReceived_loop cs st)) b)"
proof (induction cs st rule: dataReceived_loop.induct)
  case (1 cs st)
  show ?case
  proof (cases "buffer st = []")
    case True
    then show ?thesis using 1(2) by (simp add: loop_empty)
  next
    case False
    have ne: "buffer (more st b) \<noteq> []" using False by simp
    have nonneg: "\<forall>n. bulk_length st = Some n \<longrightarrow> 0 \<le> n"
      using steady_bulk_length[OF 1(2) ne] by simp
    show ?thesis
    proof (cases "\<exists>st'. dataReceived_body cs st = Stop NeedMore st'")
      case True
      then have "dataReceived_body cs st = Stop NeedMore st"
        using body_needs_more[of cs st] by auto
      then have "dataReceived_loop cs st = (NeedMore, st)"
        using False by (rule loop_stop[rotated])
      then show ?thesis using 1(2) by simp
    next
      case no_wait: False
      then have body: "dataReceived_body cs (more st b) = step_more (dataReceived_body cs st) b"
        using nonneg by (intro body_more) simp_all
      show ?thesis
      proof (cases "dataReceived_body cs st")
        case (Continue st')
        then have body': "dataReceived_body cs (more st b) = Continue (more st' b)"
          using body by simp
        have "steady cs (more st' b)"
          using 1(2) ne body' by (cases rule: steady.cases) simp_all
        then have "dataReceived_loop cs (more st' b) =
              dataReceived_loop cs (more (snd (dataReceived_loop cs st')) b)
            \<and> steady cs (more (snd (dataReceived_loop cs st')) b)"
          using 1(1)[OF False Continue] by simp
        then show ?thesis
          using loop_continue[OF False Continue] loop_continue[OF ne body'] by simp
      next
        case (Stop how st')
        then have stop: "dataReceived_body cs (more st b) = Stop how (more st' b)" "how \<noteq> NeedMore"
          using body no_wait by auto
        have False
          using 1(2) ne stop by (cases rule: steady.cases) simp_all
        then show ?thesis ..
      qed
    qed
  qed
qed

lemma two_chunks_as_one:
  assumes "steady cs (more st (a @ b))"
  shows "dataReceived cs (snd (dataReceived cs st a)) b = dataReceived cs st (a @ b)"
  using loop_more[of cs "more st a" b] assms
  by (simp add: dataReceived_def more_more more_def[symmetric])

lemma chunks_as_one:
  "steady cs (more st (concat (c # chunks))) \<Longrightarrow>
   run cs st (map Data (c # chunks)) = snd (dataReceived cs st (concat (c # chunks)))"
proof (induction chunks arbitrary: c st)
  case Nil
  then show ?case by (simp add: run_def)
next
  case (Cons c' chunks)
  let ?st1 = "snd (dataReceived cs st c)"
  let ?b = "concat (c' # chunks)"
  have st: "steady cs (more (more st c) ?b)"
    using Cons.prems by (simp add: more_more)
  have "steady cs (more ?st1 ?b)"
    using loop_more[OF st] by (simp add: dataReceived_def more_def[symmetric])
  then have "run cs ?st1 (map Data (c' # chunks)) = snd (dataReceived cs ?st1 ?b)"
    by (rule Cons.IH)
  also have "\<dots> = snd (dataReceived cs st (c @ ?b))"
    using two_chunks_as_one[of cs st c ?b] st by (simp add: more_more)
  finally show ?case by (simp add: run_def)
qed

lemma steady_example:
  "steady ascii_strict (more two_pending (''+OK'' @ SYM_CRLF @ ''$3'' @ SYM_CRLF @ ''ab''))"
proof -
  let ?s0 = "more two_pending (''+OK'' @ SYM_CRLF @ ''$3'' @ SYM_CRLF @ ''ab'')"
  let ?s1 = "two_pending\<lparr>buffer := ''$3'' @ SYM_CRLF @ ''ab'', request_queue := [1],
      fired := [(0, Callback (RText ''OK''))]\<rparr>"
  let ?s2 = "?s1\<lparr>buffer := ''ab'', bulk_length := Some 3\<rparr>"
  have b0: "dataReceived_body ascii_strict ?s0 = Continue ?s1"
    and b1: "dataReceived_body ascii_strict ?s1 = Continue ?s2"
    and b2: "dataReceived_body ascii_strict ?s2 = Stop NeedMore ?s2"
    by code_simp+
  have "steady ascii_strict ?s2"
    by (rule steady_wait[OF _ b2]) simp
  then have "steady ascii_strict ?s1"
    by (intro steady_pass[OF _ _ b1]) (simp_all add: SYM_CRLF_def two_pending_def init_def)
  then show ?thesis
    by (intro steady_pass[OF _ _ b0]) (simp_all add: more_def SYM_CRLF_def two_pending_def init_def)
qed

lemma chunks_as_one_example:
  "run ascii_strict two_pending [Data ''+O'', Data (''K'' @ SYM_CRLF @ ''$3''), Data (SYM_CRLF @ ''ab'')] =
     snd (dataReceived ascii_strict two_pending (''+OK'' @ SYM_CRLF @ ''$3'' @ SYM_CRLF @ ''ab''))"
  using chunks_as_one[of ascii_strict two_pending "''+O''" "[''K'' @ SYM_CRLF @ ''$3'', SYM_CRLF @ ''ab'']"]
    steady_example
  by (simp add: SYM_CRLF_def)

section \<open>Early returns of \<^verbatim>\<open>dataReceived\<close>\<close>

text \<open>
  Claim C1 at a concrete stream. Two requests are pending and the server sends a null array
  followed by a status reply. Fed in one call, \<^verbatim>\<open>dataReceived\<close> returns after the null array
  (line 163): only the first request fires and the status reply stays in the buffer. Fed in
  two calls split between the replies, both requests fire. The sibling null bulk reply, fed in
  one call, fires both.
\<close>

theorem early_return_after_null_array:
  "fired (run ascii_strict two_pending [Data (''*-1'' @ SYM_CRLF @ ''+OK'' @ SYM_CRLF)]) =
     [(0, Callback RNone)]
   \<and> buffer (run ascii_strict two_pending [Data (''*-1'' @ SYM_CRLF @ ''+OK'' @ SYM_CRLF)]) =
     ''+OK'' @ SYM_CRLF
   \<and> fired (run ascii_strict two_pending [Data (''*-1'' @ SYM_CRLF), Data (''+OK'' @ SYM_CRLF)]) =
     [(0, Callback RNone), (1, Callback (RText ''OK''))]
   \<and> fired (run ascii_strict two_pending [Data (''$-1'' @ SYM_CRLF @ ''+OK'' @ SYM_CRLF)]) =
     [(0, Callback RNone), (1, Callback (RText ''OK''))]"
  by code_simp

text \<open>
  Claim C2 at a concrete stream. After a \<^verbatim>\<open>$\<close> or \<^verbatim>\<open>*\<close> line whose length is not an integer
  the \<^verbatim>\<open>InvalidResponse\<close> is called back on the oldest request, and \<^verbatim>\<open>dataReceived\<close> returns
  (lines 146 and 159) with the status reply that follows still in the buffer and its request
  still queued. After a \<^verbatim>\<open>:\<close> line of the same kind the loop goes on and the status reply is
  delivered too.
\<close>

theorem early_return_after_invalid_length:
  "dataReceived ascii_strict two_pending (''$x'' @ SYM_CRLF @ ''+OK'' @ SYM_CRLF) =
     (Returned, two_pending\<lparr>buffer := ''+OK'' @ SYM_CRLF, request_queue := [1],
        fired := [(0, Callback (RInvalid (invalid_message ''x'')))]\<rparr>)
   \<and> dataReceived ascii_strict two_pending (''*x'' @ SYM_CRLF @ ''+OK'' @ SYM_CRLF) =
     (Returned, two_pending\<lparr>buffer := ''+OK'' @ SYM_CRLF, request_queue := [1],
        fired := [(0, Callback (RInvalid (invalid_message ''x'')))]\<rparr>)
   \<and> dataReceived ascii_strict two_pending ('':x'' @ SYM_CRLF @ ''+OK'' @ SYM_CRLF) =
     (Exhausted, two_pending\<lparr>buffer := [], request_queue := [],
        fired := [(0, Callback (RInvalid (invalid_message ''x''))), (1, Callback (RText ''OK''))]\<rparr>)"
  by code_simp

end
